theory Spec2Isabelle
  imports Main
begin

section \<open>JSON values and \<^verbatim>\<open>JSON.stringify\<close>\<close>

text \<open>
  The program keeps its data in JSON text files and builds its push payload with
  \<^verbatim>\<open>JSON.stringify\<close>. A JSON document is a tree; object members are kept in the order in
  which they were written, as a JavaScript object keeps its string keys. Strings are byte
  strings (the UTF-8 text of the file). A number is kept as the token that denotes it: the
  program never computes with a number read from a file.
\<close>

datatype json =
    JNull
  | JBool bool
  | JNumber string
  | JString string
  | JArray "json list"
  | JObject "(string \<times> json) list"

definition dquote :: char where
  "dquote = CHR 0x22"

definition bslash :: char where
  "bslash = CHR 0x5C"

definition newline :: char where
  "newline = CHR 0x0A"

definition hex_digit :: "nat \<Rightarrow> char" where
  "hex_digit n = ''0123456789abcdef'' ! (n mod 16)"

text \<open>
  \<^verbatim>\<open>QuoteJSONString\<close> of ECMA-262: the quotation mark, the backslash and the control
  characters are escaped, every other character is copied.
\<close>

definition escape_char :: "char \<Rightarrow> string" where
  "escape_char c =
     (if c = CHR 0x08 then [bslash, CHR ''b'']
      else if c = CHR 0x09 then [bslash, CHR ''t'']
      else if c = CHR 0x0A then [bslash, CHR ''n'']
      else if c = CHR 0x0C then [bslash, CHR ''f'']
      else if c = CHR 0x0D then [bslash, CHR ''r'']
      else if c = dquote then [bslash, dquote]
      else if c = bslash then [bslash, bslash]
      else if (of_char c :: nat) < 0x20
        then [bslash, CHR ''u'', CHR ''0'', CHR ''0'',
              hex_digit ((of_char c :: nat) div 16), hex_digit (of_char c)]
      else [c])"

definition QuoteJSONString :: "string \<Rightarrow> string" where
  "QuoteJSONString s = dquote # concat (map escape_char s) @ [dquote]"

fun join :: "string \<Rightarrow> string list \<Rightarrow> string" where
  "join sep [] = []"
| "join sep [x] = x"
| "join sep (x # y # ys) = x @ sep @ join sep (y # ys)"

text \<open>
  The bracketing of \<^verbatim>\<open>SerializeJSONObject\<close> and \<^verbatim>\<open>SerializeJSONArray\<close>: \<open>ind\<close> is the
  indentation of the enclosing line, \<open>gap\<close> the unit of indentation (empty for the compact
  form).
\<close>

definition bracketed :: "string \<Rightarrow> string \<Rightarrow> char \<Rightarrow> char \<Rightarrow> string list \<Rightarrow> string" where
  "bracketed gap ind l r partial =
     (if partial = [] then [l, r]
      else if gap = [] then l # join '','' partial @ [r]
      else l # newline # (ind @ gap) @ join ('','' @ newline # (ind @ gap)) partial
             @ newline # ind @ [r])"

fun SerializeJSONProperty :: "string \<Rightarrow> string \<Rightarrow> json \<Rightarrow> string" where
  "SerializeJSONProperty gap ind JNull = ''null''"
| "SerializeJSONProperty gap ind (JBool b) = (if b then ''true'' else ''false'')"
| "SerializeJSONProperty gap ind (JNumber n) = n"
| "SerializeJSONProperty gap ind (JString s) = QuoteJSONString s"
| "SerializeJSONProperty gap ind (JArray xs) =
     bracketed gap ind (CHR ''['') (CHR '']'')
       (map (SerializeJSONProperty gap (ind @ gap)) xs)"
| "SerializeJSONProperty gap ind (JObject ms) =
     bracketed gap ind (CHR ''{'') (CHR ''}'')
       (map (\<lambda>(k, v). QuoteJSONString k @ '':'' @ (if gap = [] then [] else '' '')
                        @ SerializeJSONProperty gap (ind @ gap) v) ms)"

text \<open>\<^verbatim>\<open>JSON.stringify(value, null, space)\<close> for a numeric \<open>space\<close> (at most ten blanks).\<close>

definition JSON_stringify :: "nat \<Rightarrow> json \<Rightarrow> string" where
  "JSON_stringify space v = SerializeJSONProperty (replicate (min space 10) (CHR '' '')) [] v"

section \<open>\<^verbatim>\<open>JSON.parse\<close>\<close>

text \<open>
  A recursive-descent reader of the JSON grammar (ECMA-404). Each reader returns the value
  read and the rest of the text, or \<open>None\<close> where \<^verbatim>\<open>JSON.parse\<close> throws a SyntaxError.
\<close>

definition is_ws :: "char \<Rightarrow> bool" where
  "is_ws c = (c = CHR '' '' \<or> c = CHR 0x09 \<or> c = CHR 0x0A \<or> c = CHR 0x0D)"

definition skip_ws :: "string \<Rightarrow> string" where
  "skip_ws s = dropWhile is_ws s"

definition is_digit :: "char \<Rightarrow> bool" where
  "is_digit c = (48 \<le> (of_char c :: nat) \<and> (of_char c :: nat) \<le> 57)"

definition hex_val :: "char \<Rightarrow> nat option" where
  "hex_val c =
     (let n = (of_char c :: nat)
      in if 48 \<le> n \<and> n \<le> 57 then Some (n - 48)
         else if 97 \<le> n \<and> n \<le> 102 then Some (n - 87)
         else if 65 \<le> n \<and> n \<le> 70 then Some (n - 55)
         else None)"

definition parse_hex4 :: "string \<Rightarrow> (nat \<times> string) option" where
  "parse_hex4 s =
     (case s of
        a # b # c # d # rest \<Rightarrow>
          (case (hex_val a, hex_val b, hex_val c, hex_val d) of
             (Some x, Some y, Some z, Some w) \<Rightarrow> Some (((x * 16 + y) * 16 + z) * 16 + w, rest)
           | _ \<Rightarrow> None)
      | _ \<Rightarrow> None)"

text \<open>The UTF-8 bytes of a code point, as the text of a string holds it.\<close>

definition utf8_encode :: "nat \<Rightarrow> string" where
  "utf8_encode n =
     (if n < 0x80 then [char_of n]
      else if n < 0x800 then [char_of (0xC0 + n div 64), char_of (0x80 + n mod 64)]
      else if n < 0x10000 then
        [char_of (0xE0 + n div 4096), char_of (0x80 + (n div 64) mod 64),
         char_of (0x80 + n mod 64)]
      else
        [char_of (0xF0 + n div 262144), char_of (0x80 + (n div 4096) mod 64),
         char_of (0x80 + (n div 64) mod 64), char_of (0x80 + n mod 64)])"

text \<open>
  A \<^verbatim>\<open>\u\<close> escape: four hexadecimal digits; a high surrogate directly followed by the
  escape of a low surrogate denotes one code point.
\<close>

definition parse_unicode_escape :: "string \<Rightarrow> (string \<times> string) option" where
  "parse_unicode_escape s =
     (case parse_hex4 s of
        None \<Rightarrow> None
      | Some (hi, rest) \<Rightarrow>
          (if 0xD800 \<le> hi \<and> hi < 0xDC00 then
             (case rest of
                b # u # rest' \<Rightarrow>
                  (if b = bslash \<and> u = CHR ''u'' then
                     (case parse_hex4 rest' of
                        None \<Rightarrow> Some (utf8_encode hi, rest)
                      | Some (lo, rest'') \<Rightarrow>
                          (if 0xDC00 \<le> lo \<and> lo < 0xE000
                           then Some (utf8_encode (0x10000 + (hi - 0xD800) * 1024 + (lo - 0xDC00)),
                                      rest'')
                           else Some (utf8_encode hi, rest)))
                   else Some (utf8_encode hi, rest))
              | _ \<Rightarrow> Some (utf8_encode hi, rest))
           else Some (utf8_encode hi, rest)))"

definition unescape :: "char \<Rightarrow> char option" where
  "unescape e =
     (if e = dquote then Some dquote
      else if e = bslash then Some bslash
      else if e = CHR ''/'' then Some (CHR ''/'')
      else if e = CHR ''b'' then Some (CHR 0x08)
      else if e = CHR ''f'' then Some (CHR 0x0C)
      else if e = CHR ''n'' then Some (CHR 0x0A)
      else if e = CHR ''r'' then Some (CHR 0x0D)
      else if e = CHR ''t'' then Some (CHR 0x09)
      else None)"

lemma parse_hex4_shorter: "parse_hex4 s = Some (n, r) \<Longrightarrow> length r < length s"
  by (auto simp: parse_hex4_def split: list.splits option.splits)

lemma parse_unicode_escape_shorter:
  "parse_unicode_escape s = Some (u, r) \<Longrightarrow> length r < length s"
  by (fastforce simp: parse_unicode_escape_def
      split: option.splits list.splits if_splits dest: parse_hex4_shorter)

text \<open>The characters of a string, after its opening quotation mark, up to the closing one.\<close>

function parse_chars :: "string \<Rightarrow> (string \<times> string) option" where
  "parse_chars [] = None"
| "parse_chars (c # cs) =
     (if c = dquote then Some ([], cs)
      else if c = bslash then
        (case cs of
           [] \<Rightarrow> None
         | e # cs' \<Rightarrow>
             (if e = CHR ''u'' then
                (case parse_unicode_escape cs' of
                   None \<Rightarrow> None
                 | Some (u, cs'') \<Rightarrow>
                     (case parse_chars cs'' of
                        None \<Rightarrow> None
                      | Some (s, r) \<Rightarrow> Some (u @ s, r)))
              else
                (case unescape e of
                   None \<Rightarrow> None
                 | Some d \<Rightarrow>
                     (case parse_chars cs' of
                        None \<Rightarrow> None
                      | Some (s, r) \<Rightarrow> Some (d # s, r)))))
      else if (of_char c :: nat) < 0x20 then None
      else (case parse_chars cs of None \<Rightarrow> None | Some (s, r) \<Rightarrow> Some (c # s, r)))"
  by pat_completeness auto
termination
  by (relation "measure length") (auto dest: parse_unicode_escape_shorter)

definition parse_digits :: "string \<Rightarrow> (string \<times> string) option" where
  "parse_digits s =
     (if takeWhile is_digit s = [] then None
      else Some (takeWhile is_digit s, dropWhile is_digit s))"

definition parse_int :: "string \<Rightarrow> (string \<times> string) option" where
  "parse_int s =
     (case s of
        [] \<Rightarrow> None
      | c # r \<Rightarrow>
          (if c = CHR ''0'' then Some (''0'', r)
           else if is_digit c then Some (c # takeWhile is_digit r, dropWhile is_digit r)
           else None))"

definition parse_frac :: "string \<Rightarrow> (string \<times> string) option" where
  "parse_frac s =
     (case s of
        [] \<Rightarrow> Some ([], s)
      | c # r \<Rightarrow>
          (if c = CHR ''.'' then
             (case parse_digits r of None \<Rightarrow> None | Some (ds, r') \<Rightarrow> Some (c # ds, r'))
           else Some ([], s)))"

definition parse_sign :: "string \<Rightarrow> string \<times> string" where
  "parse_sign s =
     (case s of
        [] \<Rightarrow> ([], s)
      | c # r \<Rightarrow> (if c = CHR ''+'' \<or> c = CHR ''-'' then ([c], r) else ([], s)))"

definition parse_exp :: "string \<Rightarrow> (string \<times> string) option" where
  "parse_exp s =
     (case s of
        [] \<Rightarrow> Some ([], s)
      | c # r \<Rightarrow>
          (if c = CHR ''e'' \<or> c = CHR ''E'' then
             (case parse_digits (snd (parse_sign r)) of
                None \<Rightarrow> None
              | Some (ds, r') \<Rightarrow> Some (c # fst (parse_sign r) @ ds, r'))
           else Some ([], s)))"

definition parse_number :: "string \<Rightarrow> (string \<times> string) option" where
  "parse_number s =
     (let (minus, r0) = (case s of [] \<Rightarrow> ([], s)
                         | c # r \<Rightarrow> (if c = CHR ''-'' then ([c], r) else ([], s)))
      in case parse_int r0 of
           None \<Rightarrow> None
         | Some (i, r1) \<Rightarrow>
             (case parse_frac r1 of
                None \<Rightarrow> None
              | Some (f, r2) \<Rightarrow>
                  (case parse_exp r2 of
                     None \<Rightarrow> None
                   | Some (e, r3) \<Rightarrow> Some (minus @ i @ f @ e, r3))))"

definition parse_literal :: "string \<Rightarrow> json \<Rightarrow> string \<Rightarrow> (json \<times> string) option" where
  "parse_literal word v s =
     (if take (length word) s = word then Some (v, drop (length word) s) else None)"

text \<open>
  An object member written twice keeps its first position and its last value, as
  \<^verbatim>\<open>JSON.parse\<close> defines the property again.
\<close>

fun set_member :: "string \<Rightarrow> 'a \<Rightarrow> (string \<times> 'a) list \<Rightarrow> (string \<times> 'a) list" where
  "set_member k v [] = [(k, v)]"
| "set_member k v (p # ps) = (if fst p = k then (k, v) # ps else p # set_member k v ps)"

definition members_object :: "(string \<times> json) list \<Rightarrow> json" where
  "members_object ms = JObject (foldl (\<lambda>acc (k, v). set_member k v acc) [] ms)"

text \<open>
  The readers of values, array elements and object members call each other; the first
  argument bounds the number of nested calls. \<open>JSON_parse\<close> starts with the length of the
  text plus one, which is enough for every text the program writes (\<open>JSON_parse_stringify\<close>).
\<close>

fun parse_value :: "nat \<Rightarrow> string \<Rightarrow> (json \<times> string) option"
  and parse_elements :: "nat \<Rightarrow> string \<Rightarrow> (json list \<times> string) option"
  and parse_members :: "nat \<Rightarrow> string \<Rightarrow> ((string \<times> json) list \<times> string) option"
where
  "parse_value 0 s = None"
| "parse_value (Suc n) s =
     (case skip_ws s of
        [] \<Rightarrow> None
      | c # cs \<Rightarrow>
          (if c = CHR ''{'' then
             (case skip_ws cs of
                [] \<Rightarrow> None
              | d # r \<Rightarrow>
                  (if d = CHR ''}'' then Some (JObject [], r)
                   else (case parse_members n cs of
                           None \<Rightarrow> None
                         | Some (ms, r') \<Rightarrow> Some (members_object ms, r'))))
           else if c = CHR ''['' then
             (case skip_ws cs of
                [] \<Rightarrow> None
              | d # r \<Rightarrow>
                  (if d = CHR '']'' then Some (JArray [], r)
                   else (case parse_elements n cs of
                           None \<Rightarrow> None
                         | Some (xs, r') \<Rightarrow> Some (JArray xs, r'))))
           else if c = dquote then
             (case parse_chars cs of None \<Rightarrow> None | Some (str, r) \<Rightarrow> Some (JString str, r))
           else if c = CHR ''t'' then parse_literal ''true'' (JBool True) (c # cs)
           else if c = CHR ''f'' then parse_literal ''false'' (JBool False) (c # cs)
           else if c = CHR ''n'' then parse_literal ''null'' JNull (c # cs)
           else (case parse_number (c # cs) of
                   None \<Rightarrow> None
                 | Some (num, r) \<Rightarrow> Some (JNumber num, r))))"
| "parse_elements 0 s = None"
| "parse_elements (Suc n) s =
     (case parse_value n s of
        None \<Rightarrow> None
      | Some (v, r) \<Rightarrow>
          (case skip_ws r of
             [] \<Rightarrow> None
           | c # r' \<Rightarrow>
               (if c = CHR '','' then
                  (case parse_elements n r' of
                     None \<Rightarrow> None
                   | Some (vs, r'') \<Rightarrow> Some (v # vs, r''))
                else if c = CHR '']'' then Some ([v], r')
                else None)))"
| "parse_members 0 s = None"
| "parse_members (Suc n) s =
     (case skip_ws s of
        [] \<Rightarrow> None
      | c # cs \<Rightarrow>
          (if c = dquote then
             (case parse_chars cs of
                None \<Rightarrow> None
              | Some (k, r) \<Rightarrow>
                  (case skip_ws r of
                     [] \<Rightarrow> None
                   | c2 # r2 \<Rightarrow>
                       (if c2 = CHR '':'' then
                          (case parse_value n r2 of
                             None \<Rightarrow> None
                           | Some (v, r3) \<Rightarrow>
                               (case skip_ws r3 of
                                  [] \<Rightarrow> None
                                | c3 # r4 \<Rightarrow>
                                    (if c3 = CHR '','' then
                                       (case parse_members n r4 of
                                          None \<Rightarrow> None
                                        | Some (ms, r5) \<Rightarrow> Some ((k, v) # ms, r5))
                                     else if c3 = CHR ''}'' then Some ([(k, v)], r4)
                                     else None)))
                        else None)))
           else None))"

definition JSON_parse :: "string \<Rightarrow> json option" where
  "JSON_parse s =
     (case parse_value (Suc (length s)) s of
        None \<Rightarrow> None
      | Some (v, r) \<Rightarrow> (if skip_ws r = [] then Some v else None))"

section \<open>The data model of \<^verbatim>\<open>index.ts\<close>\<close>

text \<open>
  The interfaces \<^verbatim>\<open>Subscription\<close>, \<^verbatim>\<open>StoredSubscription\<close> and \<^verbatim>\<open>VapidKeys\<close>. The optional
  \<^verbatim>\<open>name\<close> is \<open>None\<close> both when the property is missing and when it holds \<^verbatim>\<open>undefined\<close>:
  the program reads it only through \<^verbatim>\<open>JSON.stringify\<close>, which leaves both out.
\<close>

record SubscriptionKeys =
  p256dh :: string
  auth :: string

record Subscription =
  endpoint :: string
  keys :: SubscriptionKeys

record StoredSubscription =
  subscription :: Subscription
  createdAt :: string
  name :: "string option"

record VapidKeys =
  publicKey :: string
  privateKey :: string
  subject :: string

datatype error = IOError | TypeError | NotInitialized | OutsideModel

subsection \<open>The JSON form of the records\<close>

text \<open>What \<^verbatim>\<open>JSON.stringify\<close> reads off an object of each interface.\<close>

definition Subscription_json :: "Subscription \<Rightarrow> json" where
  "Subscription_json d =
     JObject [(''endpoint'', JString (endpoint d)),
              (''keys'', JObject [(''p256dh'', JString (p256dh (keys d))),
                                  (''auth'', JString (auth (keys d)))])]"

definition StoredSubscription_json :: "StoredSubscription \<Rightarrow> json" where
  "StoredSubscription_json r =
     JObject ([(''subscription'', Subscription_json (subscription r)),
               (''createdAt'', JString (createdAt r))]
              @ (case name r of None \<Rightarrow> [] | Some n \<Rightarrow> [(''name'', JString n)]))"

definition VapidKeys_json :: "VapidKeys \<Rightarrow> json" where
  "VapidKeys_json k =
     JObject [(''publicKey'', JString (publicKey k)),
              (''privateKey'', JString (privateKey k)),
              (''subject'', JString (subject k))]"

text \<open>
  \<^verbatim>\<open>loadSubscriptions\<close> assigns the result of \<^verbatim>\<open>JSON.parse\<close> to a variable of the interface
  type without a check. The heap of the model is typed by the interfaces, so it reads a
  JSON value back only when the value is the JSON form of a record; any other value is
  outside the model (\<open>OutsideModel\<close>), and no theorem speaks about it.
  \<^verbatim>\<open>loadOrCreateKeys\<close> returns the value that \<^verbatim>\<open>JSON.parse\<close> read as it is, whatever it is.
\<close>

definition get_member :: "string \<Rightarrow> json \<Rightarrow> json option" where
  "get_member k j = (case j of JObject ms \<Rightarrow> map_of ms k | _ \<Rightarrow> None)"

definition string_member :: "string \<Rightarrow> json \<Rightarrow> string" where
  "string_member k j = (case get_member k j of Some (JString s) \<Rightarrow> s | _ \<Rightarrow> [])"

definition as_Subscription :: "json \<Rightarrow> Subscription option" where
  "as_Subscription j =
     (let ks = (case get_member ''keys'' j of Some v \<Rightarrow> v | None \<Rightarrow> JNull);
          d = \<lparr>endpoint = string_member ''endpoint'' j,
               keys = \<lparr>p256dh = string_member ''p256dh'' ks, auth = string_member ''auth'' ks\<rparr>\<rparr>
      in if Subscription_json d = j then Some d else None)"

definition as_StoredSubscription :: "json \<Rightarrow> StoredSubscription option" where
  "as_StoredSubscription j =
     (case as_Subscription (case get_member ''subscription'' j of Some v \<Rightarrow> v | None \<Rightarrow> JNull) of
        None \<Rightarrow> None
      | Some d \<Rightarrow>
          (let r = \<lparr>subscription = d, createdAt = string_member ''createdAt'' j,
                    name = (case get_member ''name'' j of Some (JString n) \<Rightarrow> Some n | _ \<Rightarrow> None)\<rparr>
           in if StoredSubscription_json r = j then Some r else None))"

fun as_entries :: "(string \<times> json) list \<Rightarrow> (string \<times> StoredSubscription) list option" where
  "as_entries [] = Some []"
| "as_entries ((k, v) # ms) =
     (case as_StoredSubscription v of
        None \<Rightarrow> None
      | Some r \<Rightarrow> (case as_entries ms of None \<Rightarrow> None | Some es \<Rightarrow> Some ((k, r) # es)))"

definition as_subscriptions :: "json \<Rightarrow> (string \<times> StoredSubscription) list option" where
  "as_subscriptions j = (case j of JObject ms \<Rightarrow> as_entries ms | _ \<Rightarrow> None)"

subsection \<open>Objects and the heap\<close>

text \<open>
  \<^verbatim>\<open>this.subscriptions\<close> is a reference to a JavaScript object, and each stored record is an
  object of its own: \<^verbatim>\<open>getSubscriptions\<close> hands out a new object that holds the same
  record references. An object of type \<^verbatim>\<open>Record<string, StoredSubscription>\<close> has its own
  properties, in insertion order, and a prototype: \<^verbatim>\<open>Object.prototype\<close> for an object literal
  and for what \<^verbatim>\<open>JSON.parse\<close> returns, or a stored record after an assignment to
  \<^verbatim>\<open>__proto__\<close>.
\<close>

type_synonym ref = nat

datatype proto = ObjectPrototype | RecordPrototype ref

record subs_obj =
  own :: "(string \<times> ref) list"
  prototype :: proto

text \<open>The values a property read on such an object can give.\<close>

datatype jsval =
    Undefined
  | RecordV ref
  | DescriptorV Subscription
  | StringV string
  | BuiltinV string
  | ObjectPrototypeV

text \<open>The outcome of \<^verbatim>\<open>webPush.sendNotification\<close>: delivered, or rejected with an error that
  may carry a \<^verbatim>\<open>statusCode\<close>.\<close>

datatype send_result = Delivered | Rejected "nat option"

record stored_file =
  content :: string
  mode :: nat

text \<open>
  The state: the fields of the \<^verbatim>\<open>Vapush\<close> instance (\<open>this_\<close>), the heap, the file system
  with the log of the paths written, and the collaborators the program calls: the clock, the
  key generator and the push service of \<^verbatim>\<open>web-push\<close>. A collaborator answers its \<open>n\<close>-th call
  by a function of \<open>n\<close>, so that every sequence of answers is covered.
\<close>

record state =
  this_dataDir :: string
  this_subject :: string
  this_keys :: "VapidKeys option"
  this_subscriptions :: ref
  objects :: "ref \<Rightarrow> subs_obj"
  next_object :: ref
  records :: "ref \<Rightarrow> StoredSubscription"
  next_record :: ref
  cwd :: string
  files :: "string \<Rightarrow> stored_file option"
  unwritable :: "string \<Rightarrow> bool"
  writes :: "string list"
  clock :: "nat \<Rightarrow> string"
  ticks :: nat
  keygen :: "nat \<Rightarrow> string \<times> string"
  generated :: nat
  push_service :: "nat \<Rightarrow> Subscription \<Rightarrow> string \<Rightarrow> send_result"
  sent :: "(Subscription option \<times> string) list"

definition new_object :: "subs_obj \<Rightarrow> state \<Rightarrow> ref \<times> state" where
  "new_object ob s =
     (next_object s,
      s\<lparr>objects := (objects s)(next_object s := ob), next_object := Suc (next_object s)\<rparr>)"

definition new_record :: "StoredSubscription \<Rightarrow> state \<Rightarrow> ref \<times> state" where
  "new_record r s =
     (next_record s,
      s\<lparr>records := (records s)(next_record s := r), next_record := Suc (next_record s)\<rparr>)"

subsection \<open>The platform\<close>

text \<open>\<^verbatim>\<open>path.join\<close> of a directory name in normal form (no trailing separator) and a file name.\<close>

definition path_join :: "string \<Rightarrow> string \<Rightarrow> string" where
  "path_join dir f = dir @ ''/'' @ f"

text \<open>\<^verbatim>\<open>fs.readFile\<close> rejects when there is no readable file at the path.\<close>

definition readFile :: "string \<Rightarrow> state \<Rightarrow> error + string" where
  "readFile p s = (case files s p of None \<Rightarrow> Inl IOError | Some f \<Rightarrow> Inr (content f))"

text \<open>
  \<^verbatim>\<open>fs.writeFile\<close> replaces the content; the mode applies to a file it creates, and is
  \<^verbatim>\<open>0o666\<close> (438) when none is given.
\<close>

definition writeFile :: "string \<Rightarrow> string \<Rightarrow> nat option \<Rightarrow> state \<Rightarrow> (error + unit) \<times> state" where
  "writeFile p text m s =
     (if unwritable s p then (Inl IOError, s)
      else (Inr (),
            s\<lparr>files := (files s)(p \<mapsto>
                  (case files s p of
                     None \<Rightarrow> \<lparr>content = text, mode = (case m of None \<Rightarrow> 438 | Some b \<Rightarrow> b)\<rparr>
                   | Some f \<Rightarrow> f\<lparr>content := text\<rparr>)),
               writes := writes s @ [p]\<rparr>))"

definition new_Date_toISOString :: "state \<Rightarrow> string \<times> state" where
  "new_Date_toISOString s = (clock s (ticks s), s\<lparr>ticks := Suc (ticks s)\<rparr>)"

definition generateVAPIDKeys :: "state \<Rightarrow> (string \<times> string) \<times> state" where
  "generateVAPIDKeys s = (keygen s (generated s), s\<lparr>generated := Suc (generated s)\<rparr>)"

text \<open>
  \<^verbatim>\<open>webPush.sendNotification\<close>: the library rejects a missing subscription itself (an error
  without status code); otherwise the push service decides.
\<close>

definition sendNotification :: "Subscription option \<Rightarrow> string \<Rightarrow> state \<Rightarrow> send_result \<times> state" where
  "sendNotification d payload s =
     ((case d of
         None \<Rightarrow> Rejected None
       | Some d' \<Rightarrow> push_service s (length (sent s)) d' payload),
      s\<lparr>sent := sent s @ [(d, payload)]\<rparr>)"

subsection \<open>Property access on the subscriptions object\<close>

text \<open>
  \<^verbatim>\<open>this.subscriptions[id]\<close> is an ordinary property read: an own property first, then the
  prototype chain. \<^verbatim>\<open>Object.prototype\<close> has the function properties below and the accessor
  \<^verbatim>\<open>__proto__\<close>, whose getter returns the prototype of the object read.
\<close>

definition Object_prototype_functions :: "string list" where
  "Object_prototype_functions =
     [''constructor'', ''__defineGetter__'', ''__defineSetter__'', ''hasOwnProperty'',
      ''__lookupGetter__'', ''__lookupSetter__'', ''isPrototypeOf'', ''propertyIsEnumerable'',
      ''toString'', ''valueOf'', ''toLocaleString'']"

definition Object_prototype_Get :: "proto \<Rightarrow> string \<Rightarrow> jsval" where
  "Object_prototype_Get receiver_prototype k =
     (if k = ''__proto__'' then
        (case receiver_prototype of
           ObjectPrototype \<Rightarrow> ObjectPrototypeV
         | RecordPrototype r \<Rightarrow> RecordV r)
      else if k \<in> set Object_prototype_functions then BuiltinV k
      else Undefined)"

definition record_Get :: "StoredSubscription \<Rightarrow> string \<Rightarrow> jsval option" where
  "record_Get r k =
     (if k = ''subscription'' then Some (DescriptorV (subscription r))
      else if k = ''createdAt'' then Some (StringV (createdAt r))
      else if k = ''name'' then Some (case name r of None \<Rightarrow> Undefined | Some n \<Rightarrow> StringV n)
      else None)"

definition Get :: "state \<Rightarrow> ref \<Rightarrow> string \<Rightarrow> jsval" where
  "Get s ob k =
     (case map_of (own (objects s ob)) k of
        Some r \<Rightarrow> RecordV r
      | None \<Rightarrow>
          (case prototype (objects s ob) of
             ObjectPrototype \<Rightarrow> Object_prototype_Get ObjectPrototype k
           | RecordPrototype p \<Rightarrow>
               (case record_Get (records s p) k of
                  Some v \<Rightarrow> v
                | None \<Rightarrow> Object_prototype_Get (RecordPrototype p) k)))"

text \<open>The truth value of a value, as \<^verbatim>\<open>!\<close> takes it.\<close>

definition ToBoolean :: "jsval \<Rightarrow> bool" where
  "ToBoolean v = (case v of Undefined \<Rightarrow> False | StringV str \<Rightarrow> str \<noteq> [] | _ \<Rightarrow> True)"

text \<open>
  \<^verbatim>\<open>v.subscription\<close>: a TypeError on \<^verbatim>\<open>undefined\<close>, the descriptor of a stored record,
  and \<^verbatim>\<open>undefined\<close> (\<open>None\<close>) on every other value, none of which has that property.
\<close>

definition subscription_of :: "state \<Rightarrow> jsval \<Rightarrow> error + Subscription option" where
  "subscription_of s v =
     (case v of
        Undefined \<Rightarrow> Inl TypeError
      | RecordV r \<Rightarrow> Inr (Some (subscription (records s r)))
      | _ \<Rightarrow> Inr None)"

text \<open>
  \<^verbatim>\<open>this.subscriptions[id] = record\<close>: an own property is overwritten in place. Otherwise
  the key \<^verbatim>\<open>__proto__\<close> reaches the setter of \<^verbatim>\<open>Object.prototype\<close>, which makes the record
  the prototype of the object and adds no property; every other key becomes a new own
  property.
\<close>

definition Set :: "ref \<Rightarrow> string \<Rightarrow> ref \<Rightarrow> state \<Rightarrow> state" where
  "Set ob k r s =
     (let obj = objects s ob
      in if k = ''__proto__'' \<and> map_of (own obj) k = None
         then s\<lparr>objects := (objects s)(ob := obj\<lparr>prototype := RecordPrototype r\<rparr>)\<rparr>
         else s\<lparr>objects := (objects s)(ob := obj\<lparr>own := set_member k r (own obj)\<rparr>)\<rparr>)"

text \<open>\<^verbatim>\<open>delete this.subscriptions[id]\<close> removes an own property and does nothing else.\<close>

definition Delete :: "ref \<Rightarrow> string \<Rightarrow> state \<Rightarrow> state" where
  "Delete ob k s =
     s\<lparr>objects := (objects s)(ob := (objects s ob)\<lparr>own := filter (\<lambda>p. fst p \<noteq> k) (own (objects s ob))\<rparr>)\<rparr>"

text \<open>
  The order in which \<^verbatim>\<open>Object.keys\<close>, the spread and \<^verbatim>\<open>JSON.stringify\<close> visit the own
  properties: the array indices in ascending order, then the other keys in insertion order.
\<close>

definition decimal_value :: "string \<Rightarrow> int" where
  "decimal_value k = foldl (\<lambda>n c. 10 * n + ((of_char c :: int) - 48)) 0 k"

definition is_array_index :: "string \<Rightarrow> bool" where
  "is_array_index k =
     (k \<noteq> [] \<and> list_all is_digit k \<and> (k = ''0'' \<or> hd k \<noteq> CHR ''0'')
      \<and> decimal_value k < 4294967295)"

definition own_entries :: "(string \<times> 'a) list \<Rightarrow> (string \<times> 'a) list" where
  "own_entries ps =
     sort_key (\<lambda>p. decimal_value (fst p)) (filter (\<lambda>p. is_array_index (fst p)) ps)
     @ filter (\<lambda>p. \<not> is_array_index (fst p)) ps"

definition Object_keys :: "state \<Rightarrow> ref \<Rightarrow> string list" where
  "Object_keys s ob = map fst (own_entries (own (objects s ob)))"

section \<open>The class \<^verbatim>\<open>Vapush\<close>\<close>

text \<open>
  Each method takes the state and returns its result with the state it leaves. A method
  that rejects returns \<open>Inl\<close> of the error, with the state as it is at that moment. A
  method is run from its call to its return without another request in between.
  \<^verbatim>\<open>init\<close> only calls \<^verbatim>\<open>mkdir\<close>, \<^verbatim>\<open>loadOrCreateKeys\<close>, \<^verbatim>\<open>setVapidDetails\<close> and
  \<^verbatim>\<open>loadSubscriptions\<close> in a row, and is not given a definition of its own.
\<close>

record VapushOptions =
  options_dataDir :: "string option"
  options_subject :: "string option"

definition Vapush_new :: "VapushOptions \<Rightarrow> state \<Rightarrow> state" where
  "Vapush_new options s =
     (let (ob, s1) = new_object \<lparr>own = [], prototype = ObjectPrototype\<rparr> s
      in s1\<lparr>this_dataDir :=
               (case options_dataDir options of
                  None \<Rightarrow> path_join (cwd s) ''.vapush''
                | Some d \<Rightarrow> d),
             this_subject :=
               (case options_subject options of
                  None \<Rightarrow> ''mailto:vapush@localhost''
                | Some sub \<Rightarrow> sub),
             this_keys := None,
             this_subscriptions := ob\<rparr>)"

definition getPublicKey :: "state \<Rightarrow> error + string" where
  "getPublicKey s = (case this_keys s of None \<Rightarrow> Inl NotInitialized | Some k \<Rightarrow> Inr (publicKey k))"

definition subscriptions_json :: "state \<Rightarrow> json" where
  "subscriptions_json s =
     JObject (map (\<lambda>p. (fst p, StoredSubscription_json (records s (snd p))))
                  (own_entries (own (objects s (this_subscriptions s)))))"

definition saveSubscriptions :: "state \<Rightarrow> (error + unit) \<times> state" where
  "saveSubscriptions s =
     writeFile (path_join (this_dataDir s) ''subscriptions.json'')
       (JSON_stringify 2 (subscriptions_json s)) None s"

definition subscribe :: "string \<Rightarrow> Subscription \<Rightarrow> string option \<Rightarrow> state \<Rightarrow> (error + unit) \<times> state" where
  "subscribe sid d nm s =
     (let (now, s1) = new_Date_toISOString s;
          (r, s2) = new_record \<lparr>subscription = d, createdAt = now, name = nm\<rparr> s1
      in saveSubscriptions (Set (this_subscriptions s2) sid r s2))"

definition unsubscribe :: "string \<Rightarrow> state \<Rightarrow> (error + bool) \<times> state" where
  "unsubscribe sid s =
     (if \<not> ToBoolean (Get s (this_subscriptions s) sid) then (Inr False, s)
      else (case saveSubscriptions (Delete (this_subscriptions s) sid s) of
              (Inl e, s1) \<Rightarrow> (Inl e, s1)
            | (Inr u, s1) \<Rightarrow> (Inr True, s1)))"

text \<open>\<^verbatim>\<open>{ ...this.subscriptions }\<close>: a new object with the own properties of the store's.\<close>

definition getSubscriptions :: "state \<Rightarrow> ref \<times> state" where
  "getSubscriptions s =
     new_object \<lparr>own = own_entries (own (objects s (this_subscriptions s))),
                 prototype = ObjectPrototype\<rparr> s"

definition payload_json :: "string \<Rightarrow> string \<Rightarrow> string option \<Rightarrow> json" where
  "payload_json title body url =
     JObject ([(''title'', JString title), (''body'', JString body)]
              @ (case url of None \<Rightarrow> [] | Some u \<Rightarrow> [(''url'', JString u)]))"

definition is_gone :: "send_result \<Rightarrow> bool" where
  "is_gone res = (res = Rejected (Some 404) \<or> res = Rejected (Some 410))"

text \<open>
  One callback of \<^verbatim>\<open>ids.map\<close> in \<^verbatim>\<open>push\<close>: the read of the descriptor and the call of
  \<^verbatim>\<open>sendNotification\<close> stand in the \<^verbatim>\<open>try\<close>, so a TypeError of the read counts as a failure
  without status code. The callbacks start in the order of \<open>ids\<close>.
\<close>

definition attempt :: "string \<Rightarrow> string \<Rightarrow> state \<Rightarrow> send_result \<times> state" where
  "attempt payload sid s =
     (case subscription_of s (Get s (this_subscriptions s) sid) of
        Inl e \<Rightarrow> (Rejected None, s)
      | Inr d \<Rightarrow> sendNotification d payload s)"

fun attempts :: "string \<Rightarrow> string list \<Rightarrow> state \<Rightarrow> (string \<times> send_result) list \<times> state" where
  "attempts payload [] s = ([], s)"
| "attempts payload (sid # ids) s =
     (let (res, s1) = attempt payload sid s;
          (rest, s2) = attempts payload ids s1
      in ((sid, res) # rest, s2))"

text \<open>
  \<^verbatim>\<open>push\<close>. The counters and \<^verbatim>\<open>toRemove\<close> are filled as the attempts complete; the counts
  and the set of identifiers removed do not depend on that order, so \<^verbatim>\<open>toRemove\<close> is listed
  in the order of \<open>ids\<close>.
\<close>

definition push :: "string \<Rightarrow> string \<Rightarrow> string option \<Rightarrow> state \<Rightarrow> (error + nat \<times> nat) \<times> state" where
  "push title body url s =
     (let payload = JSON_stringify 0 (payload_json title body url);
          ids = Object_keys s (this_subscriptions s);
          (results, s1) = attempts payload ids s;
          success = length (filter (\<lambda>p. snd p = Delivered) results);
          failed = length (filter (\<lambda>p. snd p \<noteq> Delivered) results);
          toRemove = map fst (filter (\<lambda>p. is_gone (snd p)) results);
          s2 = fold (Delete (this_subscriptions s1)) toRemove s1
      in if toRemove \<noteq> [] then
           (case saveSubscriptions s2 of
              (Inl e, s3) \<Rightarrow> (Inl e, s3)
            | (Inr u, s3) \<Rightarrow> (Inr (success, failed), s3))
         else (Inr (success, failed), s2))"

definition pushTo :: "string \<Rightarrow> string \<Rightarrow> string \<Rightarrow> string option \<Rightarrow> state \<Rightarrow> (error + bool) \<times> state" where
  "pushTo sid title body url s =
     (let stored = Get s (this_subscriptions s) sid
      in if \<not> ToBoolean stored then (Inr False, s)
         else
           (let payload = JSON_stringify 0 (payload_json title body url)
            in case subscription_of s stored of
                 Inl e \<Rightarrow> (Inr False, s)
               | Inr d \<Rightarrow>
                   (case sendNotification d payload s of
                      (Delivered, s1) \<Rightarrow> (Inr True, s1)
                    | (Rejected code, s1) \<Rightarrow>
                        (if code = Some 404 \<or> code = Some 410 then
                           (case saveSubscriptions (Delete (this_subscriptions s1) sid s1) of
                              (Inl e, s2) \<Rightarrow> (Inl e, s2)
                            | (Inr u, s2) \<Rightarrow> (Inr False, s2))
                         else (Inr False, s1)))))"

text \<open>
  \<^verbatim>\<open>loadOrCreateKeys\<close> returns a JavaScript value: whatever \<^verbatim>\<open>JSON.parse\<close> made of the key
  file, with no check that it is a key record, or the object \<^verbatim>\<open>keys\<close> just built. The
  model gives that value as the JSON tree that denotes it; for \<^verbatim>\<open>keys\<close> this is
  \<open>VapidKeys_json\<close> of the record. The \<^verbatim>\<open>catch\<close> branch (\<open>createKeys\<close>, mode \<^verbatim>\<open>0o600\<close> = 384)
  runs when the read or \<^verbatim>\<open>JSON.parse\<close> throws; an error of its own \<^verbatim>\<open>writeFile\<close> rejects the
  call.
\<close>

definition createKeys :: "string \<Rightarrow> state \<Rightarrow> (error + json) \<times> state" where
  "createKeys keyFile s =
     (let ((pub, priv), s1) = generateVAPIDKeys s;
          k = \<lparr>publicKey = pub, privateKey = priv, subject = this_subject s\<rparr>
      in case writeFile keyFile (JSON_stringify 2 (VapidKeys_json k)) (Some 384) s1 of
           (Inl e, s2) \<Rightarrow> (Inl e, s2)
         | (Inr u, s2) \<Rightarrow> (Inr (VapidKeys_json k), s2))"

definition loadOrCreateKeys :: "state \<Rightarrow> (error + json) \<times> state" where
  "loadOrCreateKeys s =
     (let keyFile = path_join (this_dataDir s) ''vapid.json''
      in case readFile keyFile s of
           Inl e \<Rightarrow> createKeys keyFile s
         | Inr text \<Rightarrow>
             (case JSON_parse text of
                None \<Rightarrow> createKeys keyFile s
              | Some j \<Rightarrow> (Inr j, s)))"

fun new_records :: "(string \<times> StoredSubscription) list \<Rightarrow> state \<Rightarrow> (string \<times> ref) list \<times> state" where
  "new_records [] s = ([], s)"
| "new_records ((k, r) # es) s =
     (let (a, s1) = new_record r s;
          (ps, s2) = new_records es s1
      in ((k, a) # ps, s2))"

definition assign_subscriptions :: "(string \<times> StoredSubscription) list \<Rightarrow> state \<Rightarrow> state" where
  "assign_subscriptions es s =
     (let (ps, s1) = new_records es s;
          (ob, s2) = new_object \<lparr>own = ps, prototype = ObjectPrototype\<rparr> s1
      in s2\<lparr>this_subscriptions := ob\<rparr>)"

definition loadSubscriptions :: "state \<Rightarrow> (error + unit) \<times> state" where
  "loadSubscriptions s =
     (case readFile (path_join (this_dataDir s) ''subscriptions.json'') s of
        Inl e \<Rightarrow> (Inr (), assign_subscriptions [] s)
      | Inr text \<Rightarrow>
          (case JSON_parse text of
             None \<Rightarrow> (Inr (), assign_subscriptions [] s)
           | Some j \<Rightarrow>
               (case as_subscriptions j of
                  None \<Rightarrow> (Inl OutsideModel, s)
                | Some es \<Rightarrow> (Inr (), assign_subscriptions es s))))"

section \<open>The request handler of \<^verbatim>\<open>server.ts\<close>\<close>

text \<open>
  The handler that \<^verbatim>\<open>createServer\<close> installs, for a request already received: its method,
  the path name of its URL and its body. \<open>secret\<close> is the variable of that name. The static
  file branch belongs to the file server and is not followed: the model only says that the
  request is handed to it.
\<close>

record request =
  req_method :: string
  pathname :: string
  req_body :: string

text \<open>
  A response with a status and a JSON body, the empty response to \<^verbatim>\<open>OPTIONS\<close>, or the
  hand-over to the static files. \<open>OutsideTypes\<close> stands for an authorized request whose
  arguments are not of the parameter types of the method it calls; the model, typed by the
  interfaces, does not follow such a call.
\<close>

datatype response =
    Response nat json
  | NoContent nat
  | StaticFile string
  | OutsideTypes

definition checkSecret :: "string \<Rightarrow> json option \<Rightarrow> bool" where
  "checkSecret secret provided = (provided = Some (JString secret))"

definition unauthorized :: response where
  "unauthorized = Response 401 (JObject [(''error'', JString ''Invalid secret'')])"

definition badRequest :: "string \<Rightarrow> response" where
  "badRequest msg = Response 400 (JObject [(''error'', JString msg)])"

text \<open>The \<^verbatim>\<open>catch\<close> of the handler: an exception in a route gives status 500.\<close>

definition internal_error :: response where
  "internal_error = Response 500 (JObject [(''error'', JString ''Internal server error'')])"

text \<open>
  \<^verbatim>\<open>pathname.match(/^prefix(.+)$/)\<close>: the rest after the prefix, when it is not empty and
  has no line break.
\<close>

definition match_after :: "string \<Rightarrow> string \<Rightarrow> string option" where
  "match_after prefix path =
     (let rest = drop (length prefix) path
      in if take (length prefix) path = prefix \<and> rest \<noteq> []
            \<and> CHR 0x0A \<notin> set rest \<and> CHR 0x0D \<notin> set rest
         then Some rest else None)"

text \<open>The arguments of the typed methods, read off the values of the request body.\<close>

definition string_arg :: "json option \<Rightarrow> string option" where
  "string_arg v = (case v of Some (JString x) \<Rightarrow> Some x | _ \<Rightarrow> None)"

definition optional_string_arg :: "json option \<Rightarrow> string option option" where
  "optional_string_arg v =
     (case v of None \<Rightarrow> Some None | Some (JString x) \<Rightarrow> Some (Some x) | _ \<Rightarrow> None)"

definition Subscription_arg :: "json option \<Rightarrow> Subscription option" where
  "Subscription_arg v = (case v of None \<Rightarrow> None | Some j \<Rightarrow> as_Subscription j)"

fun decimal :: "nat \<Rightarrow> string" where
  "decimal n = (if n < 10 then [hex_digit n] else decimal (n div 10) @ [hex_digit (n mod 10)])"

text \<open>\<^verbatim>\<open>JSON.stringify\<close> takes the object that \<^verbatim>\<open>getSubscriptions\<close> returned.\<close>

definition listing_json :: "state \<Rightarrow> ref \<Rightarrow> json" where
  "listing_json s ob =
     JObject (map (\<lambda>p. (fst p, StoredSubscription_json (records s (snd p))))
                  (own_entries (own (objects s ob))))"

text \<open>
  The routes that take the secret from the body parse the body first, so a body that is not
  JSON gives status 400 whatever the secret; destructuring \<^verbatim>\<open>null\<close> throws.
\<close>

definition route_subscribe :: "string \<Rightarrow> request \<Rightarrow> state \<Rightarrow> response \<times> state" where
  "route_subscribe secret req s =
     (case JSON_parse (req_body req) of
        None \<Rightarrow> (badRequest ''Invalid JSON'', s)
      | Some parsed \<Rightarrow>
          (if parsed = JNull then (internal_error, s)
           else if \<not> checkSecret secret (get_member ''secret'' parsed) then (unauthorized, s)
           else
             (case (string_arg (get_member ''id'' parsed),
                    Subscription_arg (get_member ''subscription'' parsed),
                    optional_string_arg (get_member ''name'' parsed)) of
                (Some sid, Some d, Some nm) \<Rightarrow>
                  (case subscribe sid d nm s of
                     (Inl e, s1) \<Rightarrow> (internal_error, s1)
                   | (Inr u, s1) \<Rightarrow> (Response 200 (JObject [(''ok'', JBool True)]), s1))
              | _ \<Rightarrow> (OutsideTypes, s))))"

definition route_unsubscribe :: "string \<Rightarrow> request \<Rightarrow> state \<Rightarrow> response \<times> state" where
  "route_unsubscribe secret req s =
     (case JSON_parse (req_body req) of
        None \<Rightarrow> (badRequest ''Invalid JSON'', s)
      | Some parsed \<Rightarrow>
          (if parsed = JNull then (internal_error, s)
           else if \<not> checkSecret secret (get_member ''secret'' parsed) then (unauthorized, s)
           else
             (case string_arg (get_member ''id'' parsed) of
                Some sid \<Rightarrow>
                  (case unsubscribe sid s of
                     (Inl e, s1) \<Rightarrow> (internal_error, s1)
                   | (Inr removed, s1) \<Rightarrow>
                       (Response 200 (JObject [(''ok'', JBool True), (''removed'', JBool removed)]),
                        s1))
              | None \<Rightarrow> (OutsideTypes, s))))"

definition route_subscriptions :: "string \<Rightarrow> string \<Rightarrow> state \<Rightarrow> response \<times> state" where
  "route_subscriptions secret provided s =
     (if \<not> checkSecret secret (Some (JString provided)) then (unauthorized, s)
      else (let (subs, s1) = getSubscriptions s in (Response 200 (listing_json s1 subs), s1)))"

definition route_push :: "string \<Rightarrow> string \<Rightarrow> request \<Rightarrow> state \<Rightarrow> response \<times> state" where
  "route_push secret provided req s =
     (if \<not> checkSecret secret (Some (JString provided)) then (unauthorized, s)
      else
        (case JSON_parse (req_body req) of
           None \<Rightarrow> (badRequest ''Invalid JSON'', s)
         | Some parsed \<Rightarrow>
             (if parsed = JNull then (internal_error, s)
              else
                (case (string_arg (get_member ''title'' parsed),
                       string_arg (get_member ''body'' parsed),
                       optional_string_arg (get_member ''url'' parsed)) of
                   (Some title, Some body, Some url) \<Rightarrow>
                     (case push title body url s of
                        (Inl e, s1) \<Rightarrow> (internal_error, s1)
                      | (Inr (success, failed), s1) \<Rightarrow>
                          (Response 200 (JObject [(''success'', JNumber (decimal success)),
                                                  (''failed'', JNumber (decimal failed))]),
                           s1))
                 | _ \<Rightarrow> (OutsideTypes, s)))))"

text \<open>The routes in the order of the source.\<close>

definition handle :: "string \<Rightarrow> request \<Rightarrow> state \<Rightarrow> response \<times> state" where
  "handle secret req s =
     (if req_method req = ''OPTIONS'' then (NoContent 204, s)
      else if pathname req = ''/api/public-key'' then
        (case getPublicKey s of
           Inl e \<Rightarrow> (internal_error, s)
         | Inr k \<Rightarrow> (Response 200 (JObject [(''publicKey'', JString k)]), s))
      else if pathname req = ''/api/subscribe'' \<and> req_method req = ''POST''
        then route_subscribe secret req s
      else if pathname req = ''/api/unsubscribe'' \<and> req_method req = ''POST''
        then route_unsubscribe secret req s
      else
        (case (if req_method req = ''GET''
               then match_after ''/api/subscriptions/'' (pathname req) else None) of
           Some provided \<Rightarrow> route_subscriptions secret provided s
         | None \<Rightarrow>
             (case (if req_method req = ''POST''
                    then match_after ''/api/push/'' (pathname req) else None) of
                Some provided \<Rightarrow> route_push secret provided req s
              | None \<Rightarrow> (StaticFile (pathname req), s))))"

text \<open>
  The value that a request supplies as the secret, for the requests that reach the
  comparison of one of the four operations: the property \<^verbatim>\<open>secret\<close> of the body (\<open>None\<close>
  when the body has none) for \<^verbatim>\<open>subscribe\<close> and \<^verbatim>\<open>unsubscribe\<close>, the rest of the path for
  the listing and for \<^verbatim>\<open>push\<close>. Every other request supplies nothing (\<open>None\<close>).
\<close>

definition in_body :: "request \<Rightarrow> json option option" where
  "in_body req =
     (case JSON_parse (req_body req) of
        None \<Rightarrow> None
      | Some parsed \<Rightarrow> (if parsed = JNull then None else Some (get_member ''secret'' parsed)))"

definition supplied :: "request \<Rightarrow> json option option" where
  "supplied req =
     (if req_method req = ''OPTIONS'' \<or> pathname req = ''/api/public-key'' then None
      else if req_method req = ''POST'' \<and> pathname req = ''/api/subscribe'' then in_body req
      else if req_method req = ''POST'' \<and> pathname req = ''/api/unsubscribe'' then in_body req
      else if req_method req = ''GET'' then
        map_option (\<lambda>v. Some (JString v)) (match_after ''/api/subscriptions/'' (pathname req))
      else if req_method req = ''POST'' then
        map_option (\<lambda>v. Some (JString v)) (match_after ''/api/push/'' (pathname req))
      else None)"

section \<open>Observations, well-formed states and examples\<close>

text \<open>
  The map an object denotes: for each own key, the record its reference points to. This is
  what a caller of \<^verbatim>\<open>getSubscriptions\<close> reads off the object returned.
\<close>

definition stored :: "state \<Rightarrow> ref \<Rightarrow> string \<Rightarrow> StoredSubscription option" where
  "stored s ob k = map_option (records s) (map_of (own (objects s ob)) k)"

text \<open>
  The heap of a running program has no dangling reference and no object with a property
  twice: the object of \<^verbatim>\<open>this.subscriptions\<close> and the records it refers to have been
  allocated. The constructor establishes this and every method keeps it (last section).
\<close>

definition well_formed :: "state \<Rightarrow> bool" where
  "well_formed s =
     (this_subscriptions s < next_object s
      \<and> distinct (map fst (own (objects s (this_subscriptions s))))
      \<and> list_all (\<lambda>p. snd p < next_record s) (own (objects s (this_subscriptions s))))"

text \<open>
  A machine with an empty, writable disk, and a store made by the constructor on it. The
  push service of the example accepts the first message, answers 410 to the second and 500
  to the third.
\<close>

definition example_descriptor :: "string \<Rightarrow> Subscription" where
  "example_descriptor u =
     \<lparr>endpoint = ''https://push.example/'' @ u, keys = \<lparr>p256dh = ''BPk'', auth = ''k9''\<rparr>\<rparr>"

definition example_machine :: state where
  "example_machine =
     \<lparr>this_dataDir = [], this_subject = [], this_keys = None, this_subscriptions = 0,
      objects = (\<lambda>a. \<lparr>own = [], prototype = ObjectPrototype\<rparr>), next_object = 0,
      records = (\<lambda>a. \<lparr>subscription = example_descriptor [], createdAt = [], name = None\<rparr>),
      next_record = 0,
      cwd = ''/srv'', files = (\<lambda>p. None), unwritable = (\<lambda>p. False), writes = [],
      clock = (\<lambda>n. ''2024-01-01T00:00:0'' @ [hex_digit n] @ ''.000Z''), ticks = 0,
      keygen = (\<lambda>n. (''BPub'' @ [hex_digit n], ''priv'' @ [hex_digit n])), generated = 0,
      push_service =
        (\<lambda>n d payload. if n = 0 then Delivered
                        else if n = 1 then Rejected (Some 410)
                        else Rejected (Some 500)),
      sent = []\<rparr>"

definition example_store :: state where
  "example_store =
     Vapush_new \<lparr>options_dataDir = Some ''/data'', options_subject = None\<rparr> example_machine"

definition alice_store :: state where
  "alice_store =
     snd (subscribe ''alice'' (example_descriptor ''a'') (Some ''phone'') example_store)"

text \<open>
  A restart of the process: a new instance, made with the same options on the same disk.
\<close>

definition restart :: "state \<Rightarrow> state" where
  "restart s =
     Vapush_new \<lparr>options_dataDir = Some (this_dataDir s),
                 options_subject = Some (this_subject s)\<rparr> s"

text \<open>A store whose subscription file was cut off while it was written.\<close>

definition corrupt_store :: state where
  "corrupt_store =
     example_store\<lparr>files := (\<lambda>p. if p = ''/data/subscriptions.json''
                                    then Some \<lparr>content = ''{'', mode = 420\<rparr> else None)\<rparr>"

text \<open>A store with two subscribers, one with a name and one without.\<close>

definition two_store :: state where
  "two_store = snd (subscribe ''bob'' (example_descriptor ''b'') None alice_store)"

text \<open>The key record that \<^verbatim>\<open>loadOrCreateKeys\<close> makes when it has to generate one.\<close>

definition created_keys :: "state \<Rightarrow> VapidKeys" where
  "created_keys s =
     \<lparr>publicKey = fst (keygen s (generated s)), privateKey = snd (keygen s (generated s)),
      subject = this_subject s\<rparr>"

text \<open>
  A store whose key file was written by hand: the members stand in another order than the
  program writes them.
\<close>

definition edited_keys :: json where
  "edited_keys =
     JObject [(''subject'', JString ''mailto:me@example.org''),
              (''publicKey'', JString ''BPub7''),
              (''privateKey'', JString ''priv7'')]"

definition edited_store :: state where
  "edited_store =
     example_store\<lparr>files := (\<lambda>p. if p = ''/data/vapid.json''
                                    then Some \<lparr>content = JSON_stringify 0 edited_keys, mode = 384\<rparr>
                                    else None)\<rparr>"

text \<open>
  What the push service answers during one \<^verbatim>\<open>push\<close>: the subscribers are tried in the
  order of \<^verbatim>\<open>Object.keys\<close>, and the \<open>i\<close>-th call of \<^verbatim>\<open>sendNotification\<close> since the start of
  the program gets the service's answer number \<open>i\<close>.
\<close>

definition responses :: "string \<Rightarrow> state \<Rightarrow> (string \<times> send_result) list" where
  "responses payload s =
     map (\<lambda>(i, p). (fst p, push_service s i (subscription (records s (snd p))) payload))
         (enumerate (length (sent s)) (own_entries (own (objects s (this_subscriptions s)))))"

text \<open>
  What a caller can do to an object it got from \<^verbatim>\<open>getSubscriptions\<close>: assign or delete an
  entry of the object (\<open>Set\<close>, \<open>Delete\<close>), or assign to a field of a record found in it,
  here \<^verbatim>\<open>record.name = v\<close>.
\<close>

definition assign_name :: "ref \<Rightarrow> string option \<Rightarrow> state \<Rightarrow> state" where
  "assign_name r v s = s\<lparr>records := (records s)(r := (records s r)\<lparr>name := v\<rparr>)\<rparr>"

text \<open>A store with three subscribers.\<close>

definition three_store :: state where
  "three_store = snd (subscribe ''carol'' (example_descriptor ''c'') None two_store)"

text \<open>Three requests to a server whose secret is \<^verbatim>\<open>s3cret\<close>.\<close>

definition guess_push :: request where
  "guess_push = \<lparr>req_method = ''POST'', pathname = ''/api/push/guess'', req_body = ''{}''\<rparr>"

definition list_request :: request where
  "list_request = \<lparr>req_method = ''GET'', pathname = ''/api/subscriptions/s3cret'', req_body = []\<rparr>"

definition guess_unsubscribe :: request where
  "guess_unsubscribe =
     \<lparr>req_method = ''POST'', pathname = ''/api/unsubscribe'',
      req_body = JSON_stringify 0 (JObject [(''id'', JString ''alice''), (''secret'', JString ''S3CRET'')])\<rparr>"

section \<open>\<^verbatim>\<open>JSON.parse\<close> reads back what \<^verbatim>\<open>JSON.stringify\<close> wrote\<close>

text \<open>
  The program writes objects whose members have distinct keys and whose leaves are strings
  (\<open>plain\<close>). For such a tree, with any indentation, \<^verbatim>\<open>JSON.parse\<close> of the text written
  is the tree again: \<open>JSON_parse_stringify\<close>. \<open>fuel_of\<close> bounds the nested calls that
  reading the tree takes, and is at most the length of its text.
\<close>

fun plain :: "json \<Rightarrow> bool" where
  "plain (JString s) = True"
| "plain (JObject ms) = (distinct (map fst ms) \<and> (\<forall>m \<in> set ms. plain (snd m)))"
| "plain _ = False"

fun fuel_of :: "json \<Rightarrow> nat" where
  "fuel_of (JObject ms) = Suc (sum_list (map (\<lambda>m. Suc (fuel_of (snd m))) ms))"
| "fuel_of _ = 1"

definition member_text :: "string \<Rightarrow> string \<Rightarrow> string \<times> json \<Rightarrow> string" where
  "member_text gap ind m =
     QuoteJSONString (fst m) @ '':'' @ (if gap = [] then [] else '' '')
       @ SerializeJSONProperty gap ind (snd m)"

definition blanks :: "string \<Rightarrow> bool" where
  "blanks w = (\<forall>c \<in> set w. is_ws c)"

lemma hex_val_hex_digit: "d < 16 \<Longrightarrow> hex_val (hex_digit d) = Some d"
proof -
  assume d: "d < 16"
  have "\<forall>d \<in> set [0..<16]. hex_val (hex_digit d) = Some d"
    by code_simp
  with d show ?thesis by simp
qed

lemma parse_hex4_control:
  assumes "n < 32"
  shows "parse_hex4 (CHR ''0'' # CHR ''0'' # hex_digit (n div 16) # hex_digit n # rest) = Some (n, rest)"
proof -
  have a: "hex_val (hex_digit (n div 16)) = Some (n div 16)"
    using assms by (intro hex_val_hex_digit) simp
  have "hex_digit n = hex_digit (n mod 16)" by (simp add: hex_digit_def)
  then have b: "hex_val (hex_digit n) = Some (n mod 16)"
    using hex_val_hex_digit[of "n mod 16"] by simp
  have z: "hex_val (CHR ''0'') = Some 0" by (simp add: hex_val_def)
  show ?thesis by (simp add: parse_hex4_def a b z)
qed

lemma parse_unicode_escape_control:
  assumes "(of_char c :: nat) < 32"
  shows "parse_unicode_escape (CHR ''0'' # CHR ''0'' # hex_digit ((of_char c :: nat) div 16) # hex_digit (of_char c) # rest)
         = Some ([c], rest)"
  using assms by (simp add: parse_unicode_escape_def parse_hex4_control utf8_encode_def)

lemma parse_chars_escape:
  "parse_chars (t @ dquote # rest) = Some (s, rest) \<Longrightarrow>
   parse_chars (escape_char c @ t @ dquote # rest) = Some (c # s, rest)"
  by (simp add: escape_char_def unescape_def dquote_def bslash_def parse_unicode_escape_control)

lemma parse_chars_quoted:
  "parse_chars (concat (map escape_char s) @ dquote # rest) = Some (s, rest)"
  by (induction s) (simp_all add: parse_chars_escape)


lemma skip_ws_blanks: "blanks w \<Longrightarrow> \<not> is_ws c \<Longrightarrow> skip_ws (w @ c # r) = c # r"
  by (induction w) (auto simp: blanks_def skip_ws_def)

lemma skip_ws_nonblank: "\<not> is_ws c \<Longrightarrow> skip_ws (c # r) = c # r"
  by (simp add: skip_ws_def)

lemma serialize_object:
  "SerializeJSONProperty gap ind (JObject ms) =
     bracketed gap ind (CHR ''{'') (CHR ''}'') (map (member_text gap (ind @ gap)) ms)"
  by (simp add: member_text_def[abs_def] case_prod_unfold)

lemma foldl_set_member_fresh:
  "distinct (map fst (acc @ ms)) \<Longrightarrow>
   foldl (\<lambda>acc (k, v). set_member k v acc) acc ms = acc @ ms"
proof (induction ms arbitrary: acc)
  case Nil
  then show ?case by simp
next
  case (Cons m ms)
  have fresh: "fst m \<notin> fst ` set acc" using Cons.prems by auto
  have app: "set_member (fst m) (snd m) acc = acc @ [m]" using fresh
    by (induction acc) auto
  have "distinct (map fst ((acc @ [m]) @ ms))" using Cons.prems by simp
  from Cons.IH[OF this] show ?case by (simp add: app case_prod_beta)
qed

lemma members_object_distinct: "distinct (map fst ms) \<Longrightarrow> members_object ms = JObject ms"
  using foldl_set_member_fresh[of "[]" ms] by (simp add: members_object_def)

lemma parse_members_step:
  assumes w: "blanks w1"
    and pv: "\<And>r. parse_value n' ((if gap = [] then [] else '' '') @ SerializeJSONProperty gap ind (snd m) @ r)
              = Some (snd m, r)"
  shows "parse_members (Suc n') (w1 @ member_text gap ind m @ r) =
     (case skip_ws r of
        [] \<Rightarrow> None
      | c3 # r4 \<Rightarrow>
          (if c3 = CHR '','' then
             (case parse_members n' r4 of None \<Rightarrow> None | Some (ms, r5) \<Rightarrow> Some (m # ms, r5))
           else if c3 = CHR ''}'' then Some ([m], r4)
           else None))"
proof -
  obtain k v where m: "m = (k, v)" by (cases m)
  define sp where "sp = (if gap = [] then [] else '' '')"
  have nq: "\<not> is_ws dquote" "\<not> is_ws (CHR '':'')"
    by (simp_all add: is_ws_def dquote_def)
  have shape: "w1 @ member_text gap ind (k, v) @ r =
      w1 @ dquote # (concat (map escape_char k) @ dquote # (CHR '':'' #
        (sp @ SerializeJSONProperty gap ind v @ r)))"
    by (simp add: member_text_def QuoteJSONString_def sp_def)
  have pv': "parse_value n' (sp @ SerializeJSONProperty gap ind v @ r) = Some (v, r)"
    using pv by (simp add: sp_def m)
  show ?thesis
    unfolding m shape
    by (simp add: skip_ws_blanks[OF w nq(1)] parse_chars_quoted skip_ws_nonblank[OF nq(2)] pv')
qed

lemma parse_members_text:
  assumes vals: "\<And>m n pre rest. m \<in> set ms \<Longrightarrow> fuel_of (snd m) \<le> n \<Longrightarrow> blanks pre \<Longrightarrow>
            parse_value n (pre @ SerializeJSONProperty gap ind (snd m) @ rest) = Some (snd m, rest)"
    and "ms \<noteq> []"
    and "sum_list (map (\<lambda>m. Suc (fuel_of (snd m))) ms) \<le> n"
    and "blanks w1" and "blanks w2" and "blanks w3"
  shows "parse_members n (w1 @ join (CHR '','' # w2) (map (member_text gap ind) ms) @ w3 @ CHR ''}'' # rest)
         = Some (ms, rest)"
  using assms
proof (induction ms arbitrary: n w1)
  case Nil
  then show ?case by simp
next
  case (Cons m ms)
  obtain n' where n: "n = Suc n'" using Cons.prems(3) by (cases n) auto
  have nq: "\<not> is_ws (CHR '','')" "\<not> is_ws (CHR ''}'')"
    by (simp_all add: is_ws_def)
  have sp: "blanks (if gap = [] then [] else '' '')" by (simp add: blanks_def is_ws_def)
  have fv: "fuel_of (snd m) \<le> n'" using Cons.prems(3) n by simp
  have pv: "\<And>r. parse_value n' ((if gap = [] then [] else '' '') @ SerializeJSONProperty gap ind (snd m) @ r)
              = Some (snd m, r)"
    using Cons.prems(1)[OF _ fv sp] by simp
  note step = parse_members_step[OF Cons.prems(4) pv]
  show ?case
  proof (cases ms)
    case Nil
    have "parse_members n (w1 @ member_text gap ind m @ (w3 @ CHR ''}'' # rest)) = Some ([m], rest)"
      unfolding n step by (simp add: skip_ws_blanks[OF Cons.prems(6) nq(2)])
    then show ?thesis by (simp add: Nil)
  next
    case (Cons m2 ms2)
    have rest_fuel: "sum_list (map (\<lambda>m. Suc (fuel_of (snd m))) ms) \<le> n'"
      using Cons.prems(3) n by simp
    have ih: "parse_members n' (w2 @ join (CHR '','' # w2) (map (member_text gap ind) ms) @ w3 @ CHR ''}'' # rest)
              = Some (ms, rest)"
      using Cons.IH[of n' w2] Cons.prems(1,5,6) rest_fuel Cons by simp
    have "parse_members n (w1 @ member_text gap ind m @
            (CHR '','' # (w2 @ join (CHR '','' # w2) (map (member_text gap ind) ms) @ w3 @ CHR ''}'' # rest)))
          = Some (m # ms, rest)"
      unfolding n step by (simp add: skip_ws_nonblank[OF nq(1)] ih)
    then show ?thesis by (simp add: Cons)
  qed
qed

lemma blanks_append: "blanks (a @ b) = (blanks a \<and> blanks b)"
  by (auto simp: blanks_def)

lemma blanks_newline: "blanks (newline # w) = blanks w"
  by (simp add: blanks_def is_ws_def newline_def)

lemma parse_value_plain:
  "plain j \<Longrightarrow> fuel_of j \<le> n \<Longrightarrow> blanks pre \<Longrightarrow> blanks ind \<Longrightarrow> blanks gap \<Longrightarrow>
   parse_value n (pre @ SerializeJSONProperty gap ind j @ rest) = Some (j, rest)"
proof (induction j arbitrary: n pre ind rest)
  case (JString s)
  have nq: "\<not> is_ws dquote" by (simp add: is_ws_def dquote_def)
  obtain n' where n: "n = Suc n'" using JString.prems(2) by (cases n) auto
  have c: "dquote \<noteq> CHR ''{''" "dquote \<noteq> CHR ''[''" by (simp_all add: dquote_def)
  show ?case
    using JString.prems(3) nq
    by (simp add: n QuoteJSONString_def skip_ws_blanks parse_chars_quoted c)
next
  case (JObject ms)
  obtain n' where n: "n = Suc n'" using JObject.prems(2) by (cases n) auto
  have nb: "\<not> is_ws (CHR ''{'')" "\<not> is_ws (CHR ''}'')" "\<not> is_ws dquote"
    by (simp_all add: is_ws_def dquote_def)
  show ?case
  proof (cases "ms = []")
    case True
    show ?thesis
      using JObject.prems(3) nb
      by (simp add: True n bracketed_def skip_ws_blanks skip_ws_nonblank)
  next
    case False
    have dist: "distinct (map fst ms)" using JObject.prems(1) by simp
    have vals: "\<And>m k pre' rest'. m \<in> set ms \<Longrightarrow> fuel_of (snd m) \<le> k \<Longrightarrow> blanks pre' \<Longrightarrow>
        parse_value k (pre' @ SerializeJSONProperty gap (ind @ gap) (snd m) @ rest') = Some (snd m, rest')"
    proof -
      fix m k pre' rest'
      assume m: "m \<in> set ms" and k: "fuel_of (snd m) \<le> k" and p: "blanks pre'"
      have "snd m \<in> Basic_BNFs.snds m" by (cases m) simp
      moreover have "plain (snd m)" using JObject.prems(1) m by simp
      moreover have "blanks (ind @ gap)" using JObject.prems(4,5) by (simp add: blanks_append)
      ultimately show "parse_value k (pre' @ SerializeJSONProperty gap (ind @ gap) (snd m) @ rest') = Some (snd m, rest')"
        using JObject.IH[OF m _ _ k p _ JObject.prems(5)] by blast
    qed
    have fuel: "sum_list (map (\<lambda>m. Suc (fuel_of (snd m))) ms) \<le> n'"
      using JObject.prems(2) n by simp
    obtain m0 ms0 where ms: "ms = m0 # ms0" using False by (cases ms) auto
    have first: "\<And>w r. blanks w \<Longrightarrow> \<exists>r'. skip_ws (w @ join (CHR '','' # w2) (map (member_text gap (ind @ gap)) ms) @ r) = dquote # r'" for w2
      by (cases ms0) (simp_all add: ms member_text_def QuoteJSONString_def skip_ws_blanks nb)
    show ?thesis
    proof (cases "gap = []")
      case True
      have pm: "parse_members n' ([] @ join (CHR '','' # []) (map (member_text gap (ind @ gap)) ms) @ [] @ CHR ''}'' # rest)
                = Some (ms, rest)"
        by (rule parse_members_text[OF vals False fuel]) (simp_all add: blanks_def)
      obtain r' where r': "skip_ws ([] @ join (CHR '','' # []) (map (member_text gap (ind @ gap)) ms) @ CHR ''}'' # rest) = dquote # r'"
        using first[of "[]" "[]"] by (auto simp: blanks_def)
      have dq: "dquote \<noteq> CHR ''}''" by (simp add: dquote_def)
      show ?thesis
        using JObject.prems(3) nb pm r' dq True
        by (simp add: serialize_object n bracketed_def False skip_ws_blanks members_object_distinct dist
            del: SerializeJSONProperty.simps)
    next
      case gap: False
      let ?w1 = "newline # ind @ gap"
      let ?w3 = "newline # ind"
      have b1: "blanks ?w1" and b3: "blanks ?w3"
        using JObject.prems(4,5) by (simp_all add: blanks_newline blanks_append)
      have pm: "parse_members n' (?w1 @ join (CHR '','' # ?w1) (map (member_text gap (ind @ gap)) ms) @ ?w3 @ CHR ''}'' # rest)
                = Some (ms, rest)"
        by (rule parse_members_text[OF vals False fuel b1 b1 b3])
      obtain r' where r': "skip_ws (?w1 @ join (CHR '','' # ?w1) (map (member_text gap (ind @ gap)) ms) @ ?w3 @ CHR ''}'' # rest) = dquote # r'"
        using first[OF b1] by blast
      have dq: "dquote \<noteq> CHR ''}''" by (simp add: dquote_def)
      show ?thesis
        using JObject.prems(3) nb pm r' dq gap
        by (simp add: serialize_object n bracketed_def False skip_ws_blanks members_object_distinct dist
            del: SerializeJSONProperty.simps)
    qed
  qed
qed simp_all


lemma length_join: "sum_list (map length xs) \<le> length (join sep xs)"
  by (induction sep xs rule: join.induct) simp_all

lemma length_bracketed: "2 + sum_list (map length parts) \<le> length (bracketed gap ind l r parts)"
  using length_join[of parts "'',''"] length_join[of parts "'','' @ newline # (ind @ gap)"]
  by (simp add: bracketed_def)

lemma length_member_text:
  "3 + length (SerializeJSONProperty gap ind (snd m)) \<le> length (member_text gap ind m)"
  by (simp add: member_text_def QuoteJSONString_def)

lemma fuel_of_le_length: "plain j \<Longrightarrow> fuel_of j \<le> length (SerializeJSONProperty gap ind j)"
proof (induction j arbitrary: ind)
  case (JString s)
  then show ?case by (simp add: QuoteJSONString_def)
next
  case (JObject ms)
  have each: "Suc (fuel_of (snd m)) \<le> length (member_text gap (ind @ gap) m)" if "m \<in> set ms" for m
  proof -
    have "snd m \<in> Basic_BNFs.snds m" by (cases m) simp
    moreover have "plain (snd m)" using JObject.prems that by simp
    ultimately have "fuel_of (snd m) \<le> length (SerializeJSONProperty gap (ind @ gap) (snd m))"
      using JObject.IH[OF that] by blast
    then show ?thesis using length_member_text[of gap "ind @ gap" m] by linarith
  qed
  have "sum_list (map (\<lambda>m. Suc (fuel_of (snd m))) ms)
        \<le> sum_list (map (\<lambda>m. length (member_text gap (ind @ gap) m)) ms)"
    by (rule sum_list_mono) (rule each)
  then show ?case
    using length_bracketed[of "map (member_text gap (ind @ gap)) ms" gap ind "CHR ''{''" "CHR ''}''"]
    by (simp add: serialize_object comp_def del: SerializeJSONProperty.simps)
qed simp_all

lemma JSON_parse_stringify: "plain j \<Longrightarrow> JSON_parse (JSON_stringify space j) = Some j"
proof -
  assume p: "plain j"
  define gap where "gap = replicate (min space 10) (CHR '' '')"
  have g: "blanks gap" by (simp add: gap_def blanks_def is_ws_def)
  have f: "fuel_of j \<le> Suc (length (SerializeJSONProperty gap [] j))"
    using fuel_of_le_length[OF p, of gap "[]"] by simp
  have "parse_value (Suc (length (SerializeJSONProperty gap [] j))) ([] @ SerializeJSONProperty gap [] j @ [])
        = Some (j, [])"
    by (rule parse_value_plain[OF p f _ _ g]) (simp_all add: blanks_def)
  then show ?thesis
    by (simp add: JSON_parse_def JSON_stringify_def gap_def skip_ws_def)
qed

section \<open>The heap under the methods\<close>

lemma map_of_set_member: "map_of (set_member k v ps) = (map_of ps)(k \<mapsto> v)"
  by (induction ps) (auto simp: fun_eq_iff)

lemma saveSubscriptions_heap:
  "objects (snd (saveSubscriptions s)) = objects s"
  "records (snd (saveSubscriptions s)) = records s"
  "this_subscriptions (snd (saveSubscriptions s)) = this_subscriptions s"
  "next_object (snd (saveSubscriptions s)) = next_object s"
  "next_record (snd (saveSubscriptions s)) = next_record s"
  "sent (snd (saveSubscriptions s)) = sent s"
  by (simp_all add: saveSubscriptions_def writeFile_def)

lemma allocated_lookup:
  "list_all (\<lambda>p. snd p < n) ps \<Longrightarrow> map_of ps k = Some r \<Longrightarrow> r < n"
  by (induction ps) (auto split: if_splits)

lemma Get_own: "map_of (own (objects s ob)) k = Some r \<Longrightarrow> Get s ob k = RecordV r"
  by (simp add: Get_def)

lemma Get_absent:
  "map_of (own (objects s ob)) k = None \<Longrightarrow> prototype (objects s ob) = ObjectPrototype \<Longrightarrow>
   k \<noteq> ''__proto__'' \<Longrightarrow> k \<notin> set Object_prototype_functions \<Longrightarrow> Get s ob k = Undefined"
  by (simp add: Get_def Object_prototype_Get_def)

lemma set_own_entries: "set (own_entries ps) = set ps"
  by (auto simp: own_entries_def)

lemma distinct_own_entries: "distinct (map fst ps) \<Longrightarrow> distinct (map fst (own_entries ps))"
proof -
  assume d: "distinct (map fst ps)"
  then have dp: "distinct ps" and inj: "inj_on fst (set ps)"
    by (simp_all add: distinct_map)
  have "distinct (own_entries ps)"
    using dp by (auto simp: own_entries_def)
  then show ?thesis
    using inj by (simp add: distinct_map set_own_entries)
qed

lemma map_of_own_entries: "distinct (map fst ps) \<Longrightarrow> map_of (own_entries ps) = map_of ps"
  using distinct_own_entries[of ps] set_own_entries[of ps]
  by (simp add: map_of_inject_set)

lemma distinct_set_member:
  "distinct (map fst ps) \<Longrightarrow> distinct (map fst (set_member k v ps))"
proof (induction ps)
  case Nil
  then show ?case by simp
next
  case (Cons p ps)
  have "fst ` set (set_member k v ps) = insert k (fst ` set ps)"
    by (induction ps) auto
  with Cons show ?case by auto
qed

lemma list_all_set_member:
  "list_all P ps \<Longrightarrow> P (k, v) \<Longrightarrow> list_all P (set_member k v ps)"
  by (induction ps) auto

lemma well_formed_Vapush_new: "well_formed (Vapush_new options s)"
  by (simp add: well_formed_def Vapush_new_def new_object_def)

lemma well_formed_saveSubscriptions: "well_formed s \<Longrightarrow> well_formed (snd (saveSubscriptions s))"
  by (simp add: well_formed_def saveSubscriptions_heap)

lemma well_formed_subscribe: "well_formed s \<Longrightarrow> well_formed (snd (subscribe sid d nm s))"
proof -
  assume wf: "well_formed s"
  let ?own = "own (objects s (this_subscriptions s))"
  have older: "list_all (\<lambda>p. snd p < Suc (next_record s)) ?own"
    using wf by (auto simp: well_formed_def list_all_iff)
  have "list_all (\<lambda>p. snd p < Suc (next_record s)) (set_member sid (next_record s) ?own)"
    by (rule list_all_set_member[OF older]) simp
  then show ?thesis
    using wf older
    by (simp add: subscribe_def new_Date_toISOString_def new_record_def Set_def Let_def
        well_formed_def saveSubscriptions_heap distinct_set_member)
qed

lemma stored_getSubscriptions:
  "distinct (map fst (own (objects s (this_subscriptions s)))) \<Longrightarrow>
   stored (snd (getSubscriptions s)) (fst (getSubscriptions s)) = stored s (this_subscriptions s)"
  by (simp add: getSubscriptions_def new_object_def stored_def fun_eq_iff map_of_own_entries)

section \<open>The JSON form of the records is read back\<close>

lemma plain_Subscription_json: "plain (Subscription_json d)"
  by (simp add: Subscription_json_def)

lemma plain_StoredSubscription_json: "plain (StoredSubscription_json r)"
  by (cases "name r") (simp_all add: StoredSubscription_json_def plain_Subscription_json)

lemma plain_VapidKeys_json: "plain (VapidKeys_json k)"
  by (simp add: VapidKeys_json_def)

lemma as_Subscription_json: "as_Subscription (Subscription_json d) = Some d"
  by (simp add: as_Subscription_def Subscription_json_def get_member_def string_member_def)

lemma as_StoredSubscription_json: "as_StoredSubscription (StoredSubscription_json r) = Some r"
proof -
  have m: "get_member ''subscription'' (StoredSubscription_json r) = Some (Subscription_json (subscription r))"
    by (simp add: StoredSubscription_json_def get_member_def)
  have c: "string_member ''createdAt'' (StoredSubscription_json r) = createdAt r"
    by (simp add: StoredSubscription_json_def get_member_def string_member_def)
  have n: "(case get_member ''name'' (StoredSubscription_json r) of Some (JString n) \<Rightarrow> Some n | _ \<Rightarrow> None) = name r"
    by (cases "name r") (simp_all add: StoredSubscription_json_def get_member_def)
  have e: "\<lparr>subscription = subscription r, createdAt = createdAt r, name = name r\<rparr> = r"
    by simp
  show ?thesis
    unfolding as_StoredSubscription_def m c n
    by (simp add: as_Subscription_json Let_def e)
qed

lemma as_entries_json:
  "as_entries (map (\<lambda>p. (fst p, StoredSubscription_json (f p))) ps) = Some (map (\<lambda>p. (fst p, f p)) ps)"
  by (induction ps) (simp_all add: as_StoredSubscription_json)

lemma plain_subscriptions_json:
  "distinct (map fst (own (objects s (this_subscriptions s)))) \<Longrightarrow> plain (subscriptions_json s)"
  using distinct_own_entries[of "own (objects s (this_subscriptions s))"]
  by (simp add: subscriptions_json_def comp_def plain_StoredSubscription_json)

lemma as_subscriptions_json:
  "as_subscriptions (subscriptions_json s)
   = Some (map (\<lambda>p. (fst p, records s (snd p))) (own_entries (own (objects s (this_subscriptions s)))))"
  by (simp add: as_subscriptions_def subscriptions_json_def as_entries_json)

lemma new_records_frame:
  "new_records es s = (ps, s') \<Longrightarrow>
   next_record s \<le> next_record s' \<and> (\<forall>r < next_record s. records s' r = records s r)
   \<and> list_all (\<lambda>p. snd p < next_record s') ps
   \<and> objects s' = objects s \<and> next_object s' = next_object s \<and> files s' = files s
   \<and> this_dataDir s' = this_dataDir s \<and> writes s' = writes s"
proof (induction es arbitrary: s ps s')
  case Nil
  then show ?case by simp
next
  case (Cons e es)
  obtain k r where e: "e = (k, r)" by (cases e)
  obtain ps1 s1 where rec: "new_records es (snd (new_record r s)) = (ps1, s1)"
    by (cases "new_records es (snd (new_record r s))")
  have ps: "ps = (k, next_record s) # ps1" and s': "s' = s1"
    using Cons.prems rec by (simp_all add: e new_record_def split: prod.splits)
  from Cons.IH[OF rec] show ?case
    by (auto simp: ps s' new_record_def list_all_iff)
qed

lemma new_records_entries:
  "new_records es s = (ps, s') \<Longrightarrow> map (\<lambda>p. (fst p, records s' (snd p))) ps = es"
proof (induction es arbitrary: s ps s')
  case Nil
  then show ?case by simp
next
  case (Cons e es)
  obtain k r where e: "e = (k, r)" by (cases e)
  obtain ps1 s1 where rec: "new_records es (snd (new_record r s)) = (ps1, s1)"
    by (cases "new_records es (snd (new_record r s))")
  have ps: "ps = (k, next_record s) # ps1" and s': "s' = s1"
    using Cons.prems rec by (simp_all add: e new_record_def split: prod.splits)
  have "records s1 (next_record s) = r"
    using new_records_frame[OF rec] by (simp add: new_record_def)
  with Cons.IH[OF rec] show ?case by (simp add: ps s' e)
qed

lemma map_of_map_snd:
  "map_of (map (\<lambda>p. (fst p, f (snd p))) ps) k = map_option f (map_of ps k)"
  by (induction ps) simp_all

lemma stored_assign_subscriptions:
  "stored (assign_subscriptions es s) (this_subscriptions (assign_subscriptions es s)) = map_of es"
proof -
  obtain ps s1 where nr: "new_records es s = (ps, s1)" by (cases "new_records es s")
  have "map_of (map (\<lambda>p. (fst p, records s1 (snd p))) ps) = map_of es"
    using new_records_entries[OF nr] by simp
  then have "\<And>k. map_option (records s1) (map_of ps k) = map_of es k"
    by (simp add: map_of_map_snd[symmetric])
  then show ?thesis
    by (simp add: assign_subscriptions_def nr new_object_def stored_def fun_eq_iff)
qed

lemma well_formed_assign_subscriptions:
  "distinct (map fst es) \<Longrightarrow> well_formed (assign_subscriptions es s)"
proof -
  assume d: "distinct (map fst es)"
  obtain ps s1 where nr: "new_records es s = (ps, s1)" by (cases "new_records es s")
  have "map fst ps = map fst es"
    using new_records_entries[OF nr] by (metis (no_types, lifting) map_map comp_def fst_conv map_eq_conv)
  then show ?thesis
    using d new_records_frame[OF nr]
    by (simp add: assign_subscriptions_def nr new_object_def well_formed_def)
qed

section \<open>The example stores\<close>

lemma subscribe_effect:
  "this_subscriptions (snd (subscribe sid d nm s)) = this_subscriptions s"
  "this_dataDir (snd (subscribe sid d nm s)) = this_dataDir s"
  "next_object (snd (subscribe sid d nm s)) = next_object s"
  "next_record (snd (subscribe sid d nm s)) = Suc (next_record s)"
  "records (snd (subscribe sid d nm s))
     = (records s)(next_record s := \<lparr>subscription = d, createdAt = clock s (ticks s), name = nm\<rparr>)"
  "own (objects (snd (subscribe sid d nm s)) (this_subscriptions s))
     = (if sid = ''__proto__'' \<and> map_of (own (objects s (this_subscriptions s))) sid = None
        then own (objects s (this_subscriptions s))
        else set_member sid (next_record s) (own (objects s (this_subscriptions s))))"
  "clock (snd (subscribe sid d nm s)) = clock s"
  "ticks (snd (subscribe sid d nm s)) = Suc (ticks s)"
  "unwritable (snd (subscribe sid d nm s)) = unwritable s"
  "push_service (snd (subscribe sid d nm s)) = push_service s"
  "sent (snd (subscribe sid d nm s)) = sent s"
  by (auto simp: subscribe_def new_Date_toISOString_def new_record_def Set_def Let_def
      saveSubscriptions_def writeFile_def)

lemma example_store_facts:
  "this_subscriptions example_store = 0"
  "this_dataDir example_store = ''/data''"
  "own (objects example_store 0) = []"
  "next_object example_store = 1"
  "next_record example_store = 0"
  "ticks example_store = 0"
  "clock example_store = (\<lambda>n. ''2024-01-01T00:00:0'' @ [hex_digit n] @ ''.000Z'')"
  "unwritable example_store = (\<lambda>p. False)"
  "sent example_store = []"
  by (simp_all add: example_store_def example_machine_def Vapush_new_def new_object_def)

lemma hex_digit_small: "hex_digit 0 = CHR ''0''" "hex_digit (Suc 0) = CHR ''1''" "hex_digit 2 = CHR ''2''"
  by (simp_all add: hex_digit_def)

lemma alice_store_facts:
  "this_subscriptions alice_store = 0"
  "this_dataDir alice_store = ''/data''"
  "own (objects alice_store 0) = [(''alice'', 0)]"
  "next_object alice_store = 1"
  "next_record alice_store = 1"
  "records alice_store 0 = \<lparr>subscription = example_descriptor ''a'',
       createdAt = ''2024-01-01T00:00:00.000Z'', name = Some ''phone''\<rparr>"
  "ticks alice_store = 1"
  "clock alice_store = (\<lambda>n. ''2024-01-01T00:00:0'' @ [hex_digit n] @ ''.000Z'')"
  "unwritable alice_store = (\<lambda>p. False)"
  "sent alice_store = []"
  using subscribe_effect(6)[of "''alice''" "example_descriptor ''a''" "Some ''phone''" example_store]
  by (simp_all add: alice_store_def subscribe_effect example_store_facts hex_digit_small)

lemma two_store_facts:
  "this_subscriptions two_store = 0"
  "this_dataDir two_store = ''/data''"
  "own (objects two_store 0) = [(''alice'', 0), (''bob'', Suc 0)]"
  "next_object two_store = 1"
  "next_record two_store = 2"
  "records two_store 0 = \<lparr>subscription = example_descriptor ''a'',
       createdAt = ''2024-01-01T00:00:00.000Z'', name = Some ''phone''\<rparr>"
  "records two_store (Suc 0) = \<lparr>subscription = example_descriptor ''b'',
       createdAt = ''2024-01-01T00:00:01.000Z'', name = None\<rparr>"
  "unwritable two_store = (\<lambda>p. False)"
  "sent two_store = []"
  using subscribe_effect(6)[of "''bob''" "example_descriptor ''b''" None alice_store]
  by (simp_all add: two_store_def subscribe_effect alice_store_facts hex_digit_small)

lemma example_push_service:
  "push_service example_store =
     (\<lambda>n d payload. if n = 0 then Delivered
                     else if n = 1 then Rejected (Some 410)
                     else Rejected (Some 500))"
  by (simp add: example_store_def example_machine_def Vapush_new_def new_object_def)

lemma two_store_facts2:
  "ticks two_store = 2"
  "clock two_store = (\<lambda>n. ''2024-01-01T00:00:0'' @ [hex_digit n] @ ''.000Z'')"
  "push_service two_store =
     (\<lambda>n d payload. if n = 0 then Delivered
                     else if n = 1 then Rejected (Some 410)
                     else Rejected (Some 500))"
  by (simp_all add: two_store_def alice_store_def subscribe_effect
      example_push_service example_store_facts)

lemma three_store_facts:
  "this_subscriptions three_store = 0"
  "this_dataDir three_store = ''/data''"
  "own (objects three_store 0) = [(''alice'', 0), (''bob'', Suc 0), (''carol'', 2)]"
  "next_object three_store = 1"
  "next_record three_store = 3"
  "records three_store 0 = \<lparr>subscription = example_descriptor ''a'',
       createdAt = ''2024-01-01T00:00:00.000Z'', name = Some ''phone''\<rparr>"
  "records three_store (Suc 0) = \<lparr>subscription = example_descriptor ''b'',
       createdAt = ''2024-01-01T00:00:01.000Z'', name = None\<rparr>"
  "records three_store 2 = \<lparr>subscription = example_descriptor ''c'',
       createdAt = ''2024-01-01T00:00:02.000Z'', name = None\<rparr>"
  "unwritable three_store = (\<lambda>p. False)"
  "sent three_store = []"
  "push_service three_store =
     (\<lambda>n d payload. if n = 0 then Delivered
                     else if n = 1 then Rejected (Some 410)
                     else Rejected (Some 500))"
  using subscribe_effect(6)[of "''carol''" "example_descriptor ''c''" None two_store]
  by (simp_all add: three_store_def subscribe_effect two_store_facts two_store_facts2 hex_digit_small)

lemma three_store_entries:
  "own_entries [(''alice'', 0::nat), (''bob'', Suc 0), (''carol'', 2)]
   = [(''alice'', 0), (''bob'', Suc 0), (''carol'', 2)]"
  by (simp add: own_entries_def is_array_index_def is_digit_def)

lemma three_store_responses:
  "responses payload three_store
   = [(''alice'', Delivered), (''bob'', Rejected (Some 410)), (''carol'', Rejected (Some 500))]"
  by (simp add: responses_def three_store_facts three_store_entries)

section \<open>\<^verbatim>\<open>subscribe\<close>\<close>

text \<open>
  C10. \<^verbatim>\<open>subscribe(id, ...)\<close> leaves the stored record of every other identifier as it
  was: the same descriptor, creation time and name. This holds whether or not the write of
  the file succeeds.
\<close>

theorem subscribe_frame:
  assumes "well_formed s" and "sid' \<noteq> sid"
  shows "stored (snd (subscribe sid d nm s)) (this_subscriptions (snd (subscribe sid d nm s))) sid'
         = stored s (this_subscriptions s) sid'"
proof -
  let ?own = "own (objects s (this_subscriptions s))"
  have alloc: "\<And>r. map_of ?own sid' = Some r \<Longrightarrow> r \<noteq> next_record s"
    using assms(1) allocated_lookup[of "next_record s" ?own sid'] by (fastforce simp: well_formed_def)
  show ?thesis
    using assms(2) alloc
    by (cases "map_of ?own sid'")
      (simp_all add: subscribe_def stored_def new_Date_toISOString_def new_record_def Set_def
        saveSubscriptions_heap Let_def map_of_set_member)
qed

theorem subscribe_frame_witness:
  "well_formed alice_store \<and> ''alice'' \<noteq> ''bob''
   \<and> stored (snd (subscribe ''bob'' (example_descriptor ''b'') None alice_store))
        (this_subscriptions (snd (subscribe ''bob'' (example_descriptor ''b'') None alice_store)))
        ''alice''
     = Some \<lparr>subscription = example_descriptor ''a'',
             createdAt = ''2024-01-01T00:00:00.000Z'', name = Some ''phone''\<rparr>"
proof -
  have wf: "well_formed alice_store"
    by (simp add: well_formed_def alice_store_facts)
  have ne: "''alice'' \<noteq> ''bob''" by simp
  have before: "stored alice_store (this_subscriptions alice_store) ''alice''
     = Some \<lparr>subscription = example_descriptor ''a'',
             createdAt = ''2024-01-01T00:00:00.000Z'', name = Some ''phone''\<rparr>"
    by (simp add: stored_def alice_store_facts)
  show ?thesis
    using subscribe_frame[OF wf ne, of "example_descriptor ''b''" None] wf before by simp
qed

text \<open>
  For every identifier but \<^verbatim>\<open>__proto__\<close>, and for \<^verbatim>\<open>__proto__\<close> too when the object already
  has it as an own property, \<^verbatim>\<open>subscribe\<close> followed by \<^verbatim>\<open>getSubscriptions\<close> shows the
  identifier with the descriptor given, the time read off the clock and the name.
\<close>

lemma subscribe_then_list:
  assumes "sid \<noteq> ''__proto__'' \<or> map_of (own (objects s (this_subscriptions s))) sid \<noteq> None"
    and "well_formed s"
  shows "stored (snd (getSubscriptions (snd (subscribe sid d nm s))))
           (fst (getSubscriptions (snd (subscribe sid d nm s)))) sid
         = Some \<lparr>subscription = d, createdAt = clock s (ticks s), name = nm\<rparr>"
proof -
  have wf': "well_formed (snd (subscribe sid d nm s))"
    by (rule well_formed_subscribe[OF assms(2)])
  have "stored (snd (subscribe sid d nm s)) (this_subscriptions (snd (subscribe sid d nm s))) sid
        = Some \<lparr>subscription = d, createdAt = clock s (ticks s), name = nm\<rparr>"
    using assms(1)
    by (auto simp: subscribe_def stored_def new_Date_toISOString_def new_record_def Set_def
        saveSubscriptions_heap Let_def map_of_set_member)
  then show ?thesis
    using wf' by (simp add: stored_getSubscriptions well_formed_def)
qed

text \<open>
  C3. On the identifier \<^verbatim>\<open>__proto__\<close> the assignment in \<^verbatim>\<open>subscribe\<close> sets the prototype
  of the subscriptions object and adds no property: \<^verbatim>\<open>subscribe\<close> returns normally, and the
  object that \<^verbatim>\<open>getSubscriptions\<close> returns afterward is empty, so it does not contain the
  identifier subscribed.
\<close>

theorem subscribe_proto_key:
  "fst (subscribe ''__proto__'' (example_descriptor ''a'') None example_store) = Inr ()
   \<and> own (objects (snd (getSubscriptions (snd (subscribe ''__proto__'' (example_descriptor ''a'') None example_store))))
        (fst (getSubscriptions (snd (subscribe ''__proto__'' (example_descriptor ''a'') None example_store))))) = []
   \<and> stored (snd (getSubscriptions (snd (subscribe ''__proto__'' (example_descriptor ''a'') None example_store))))
        (fst (getSubscriptions (snd (subscribe ''__proto__'' (example_descriptor ''a'') None example_store))))
        ''__proto__'' = None"
  by code_simp

section \<open>\<^verbatim>\<open>unsubscribe\<close>\<close>

text \<open>
  Where the property read gives \<^verbatim>\<open>undefined\<close>, \<^verbatim>\<open>unsubscribe\<close> returns false and changes
  nothing; on an own property it returns true, removes it and writes the file once.
\<close>

lemma unsubscribe_absent:
  "Get s (this_subscriptions s) sid = Undefined \<Longrightarrow> unsubscribe sid s = (Inr False, s)"
  by (simp add: unsubscribe_def ToBoolean_def)

lemma unsubscribe_present:
  assumes "map_of (own (objects s (this_subscriptions s))) sid = Some r"
    and "\<not> unwritable s (path_join (this_dataDir s) ''subscriptions.json'')"
  shows "fst (unsubscribe sid s) = Inr True"
    and "stored (snd (unsubscribe sid s)) (this_subscriptions (snd (unsubscribe sid s))) sid = None"
    and "writes (snd (unsubscribe sid s)) = writes s @ [path_join (this_dataDir s) ''subscriptions.json'']"
  using assms
  by (auto simp: unsubscribe_def Get_own ToBoolean_def saveSubscriptions_def writeFile_def
      Delete_def stored_def map_of_eq_None_iff image_iff split: prod.splits)

text \<open>
  C2. \<^verbatim>\<open>constructor\<close> is not an identifier of the empty store, but the property read
  \<^verbatim>\<open>this.subscriptions["constructor"]\<close> finds the function inherited from
  \<^verbatim>\<open>Object.prototype\<close>, which is truthy: \<^verbatim>\<open>unsubscribe\<close> returns true and writes the
  subscription file, where an unknown identifier should give false and no write.
\<close>

theorem unsubscribe_inherited_key:
  "stored example_store (this_subscriptions example_store) ''constructor'' = None
   \<and> fst (unsubscribe ''constructor'' example_store) = Inr True
   \<and> writes example_store = []
   \<and> writes (snd (unsubscribe ''constructor'' example_store)) = [''/data/subscriptions.json'']"
  by code_simp

section \<open>\<^verbatim>\<open>pushTo\<close>\<close>

text \<open>Where the property read gives \<^verbatim>\<open>undefined\<close>, \<^verbatim>\<open>pushTo\<close> returns false and sends nothing.\<close>

lemma pushTo_absent:
  "Get s (this_subscriptions s) sid = Undefined \<Longrightarrow> pushTo sid title body url s = (Inr False, s)"
  by (simp add: pushTo_def ToBoolean_def)

text \<open>
  C9. On the identifier \<^verbatim>\<open>constructor\<close>, which the empty store does not hold, \<^verbatim>\<open>pushTo\<close>
  passes the guard (the inherited function is truthy) and calls \<^verbatim>\<open>sendNotification\<close> once,
  with \<^verbatim>\<open>undefined\<close> as the subscription; it returns false after the call was made.
\<close>

theorem pushTo_inherited_key:
  "stored example_store (this_subscriptions example_store) ''constructor'' = None
   \<and> fst (pushTo ''constructor'' ''Alert'' ''Server rebooted'' None example_store) = Inr False
   \<and> sent example_store = []
   \<and> map fst (sent (snd (pushTo ''constructor'' ''Alert'' ''Server rebooted'' None example_store))) = [None]"
  by code_simp

section \<open>\<^verbatim>\<open>saveSubscriptions\<close> and \<^verbatim>\<open>loadSubscriptions\<close>\<close>

text \<open>
  C8. When the subscription file is missing, or its content is not valid JSON,
  \<^verbatim>\<open>loadSubscriptions\<close> returns normally and leaves an empty subscriptions object, like the
  one the constructor makes: no own property, \<^verbatim>\<open>Object.prototype\<close> as prototype, in a
  well-formed state on which every method runs as on a new store. The disk is not touched.
\<close>

theorem loadSubscriptions_missing_or_corrupt:
  assumes "\<forall>f. files s (path_join (this_dataDir s) ''subscriptions.json'') = Some f
             \<longrightarrow> JSON_parse (content f) = None"
  shows "fst (loadSubscriptions s) = Inr ()
     \<and> own (objects (snd (loadSubscriptions s)) (this_subscriptions (snd (loadSubscriptions s)))) = []
     \<and> prototype (objects (snd (loadSubscriptions s)) (this_subscriptions (snd (loadSubscriptions s))))
         = ObjectPrototype
     \<and> well_formed (snd (loadSubscriptions s))
     \<and> files (snd (loadSubscriptions s)) = files s"
proof -
  have "loadSubscriptions s = (Inr (), assign_subscriptions [] s)"
    using assms by (auto simp: loadSubscriptions_def readFile_def split: option.splits)
  then show ?thesis
    by (simp add: assign_subscriptions_def new_object_def well_formed_def)
qed

text \<open>The theorem at a store without a subscription file and at one whose file is cut off.\<close>

theorem loadSubscriptions_missing_or_corrupt_witness:
  "files example_store ''/data/subscriptions.json'' = None
   \<and> fst (loadSubscriptions example_store) = Inr ()
   \<and> map_option content (files corrupt_store ''/data/subscriptions.json'') = Some ''{''
   \<and> JSON_parse ''{'' = None
   \<and> fst (loadSubscriptions corrupt_store) = Inr ()
   \<and> own (objects (snd (loadSubscriptions corrupt_store))
            (this_subscriptions (snd (loadSubscriptions corrupt_store)))) = []
   \<and> well_formed (snd (loadSubscriptions corrupt_store))"
proof -
  have dir: "this_dataDir example_store = ''/data''" "this_dataDir corrupt_store = ''/data''"
    by code_simp+
  have p: "path_join ''/data'' ''subscriptions.json'' = ''/data/subscriptions.json''"
    by (simp add: path_join_def)
  have none: "files example_store ''/data/subscriptions.json'' = None" by code_simp
  have bad: "JSON_parse ''{'' = None" by code_simp
  have onDisk: "files corrupt_store ''/data/subscriptions.json'' = Some \<lparr>content = ''{'', mode = 420\<rparr>"
    by (simp add: corrupt_store_def)
  have h1: "\<forall>f. files example_store (path_join (this_dataDir example_store) ''subscriptions.json'') = Some f
             \<longrightarrow> JSON_parse (content f) = None"
    by (simp add: dir p none)
  have h2: "\<forall>f. files corrupt_store (path_join (this_dataDir corrupt_store) ''subscriptions.json'') = Some f
             \<longrightarrow> JSON_parse (content f) = None"
    using bad by (auto simp: dir p onDisk)
  show ?thesis
    using loadSubscriptions_missing_or_corrupt[OF h1] loadSubscriptions_missing_or_corrupt[OF h2]
      none bad onDisk
    by simp
qed

lemma saveSubscriptions_writable:
  "\<not> unwritable s (path_join (this_dataDir s) ''subscriptions.json'') \<Longrightarrow>
   saveSubscriptions s =
     (Inr (),
      s\<lparr>files := (files s)(path_join (this_dataDir s) ''subscriptions.json'' \<mapsto>
              (case files s (path_join (this_dataDir s) ''subscriptions.json'') of
                 None \<Rightarrow> \<lparr>content = JSON_stringify 2 (subscriptions_json s), mode = 438\<rparr>
               | Some f \<Rightarrow> f\<lparr>content := JSON_stringify 2 (subscriptions_json s)\<rparr>)),
         writes := writes s @ [path_join (this_dataDir s) ''subscriptions.json'']\<rparr>)"
  by (cases "files s (path_join (this_dataDir s) ''subscriptions.json'')")
    (simp_all add: saveSubscriptions_def writeFile_def)

lemma loadSubscriptions_reads:
  assumes "map_option content (files s (path_join (this_dataDir s) ''subscriptions.json''))
           = Some (JSON_stringify 2 (subscriptions_json s0))"
    and "distinct (map fst (own (objects s0 (this_subscriptions s0))))"
  shows "loadSubscriptions s =
     (Inr (), assign_subscriptions
        (map (\<lambda>p. (fst p, records s0 (snd p))) (own_entries (own (objects s0 (this_subscriptions s0))))) s)"
proof -
  have rd: "readFile (path_join (this_dataDir s) ''subscriptions.json'') s
            = Inr (JSON_stringify 2 (subscriptions_json s0))"
    using assms(1) by (auto simp: readFile_def split: option.splits)
  show ?thesis
    by (simp add: loadSubscriptions_def rd JSON_parse_stringify plain_subscriptions_json[OF assms(2)]
        as_subscriptions_json)
qed

text \<open>
  C4. Saving the subscriptions to the file and loading them after a restart gives the same
  map: the same identifiers, each with the same descriptor, creation time and name (present
  or not). The write has to succeed; the theorem says that it does on a writable path.
\<close>

theorem save_load_roundtrip:
  assumes "well_formed s"
    and "\<not> unwritable s (path_join (this_dataDir s) ''subscriptions.json'')"
  shows "fst (saveSubscriptions s) = Inr ()
     \<and> fst (loadSubscriptions (restart (snd (saveSubscriptions s)))) = Inr ()
     \<and> stored (snd (loadSubscriptions (restart (snd (saveSubscriptions s)))))
          (this_subscriptions (snd (loadSubscriptions (restart (snd (saveSubscriptions s))))))
        = stored s (this_subscriptions s)"
proof -
  let ?p = "path_join (this_dataDir s) ''subscriptions.json''"
  let ?own = "own (objects s (this_subscriptions s))"
  let ?s1 = "snd (saveSubscriptions s)"
  let ?es = "map (\<lambda>p. (fst p, records s (snd p))) (own_entries ?own)"
  have d: "distinct (map fst ?own)" using assms(1) by (simp add: well_formed_def)
  have ok: "fst (saveSubscriptions s) = Inr ()"
    by (simp add: saveSubscriptions_writable[OF assms(2)])
  have dir: "this_dataDir (restart ?s1) = this_dataDir s"
    by (simp add: restart_def Vapush_new_def new_object_def saveSubscriptions_writable[OF assms(2)])
  have disk: "map_option content (files (restart ?s1) ?p) = Some (JSON_stringify 2 (subscriptions_json s))"
    by (cases "files s ?p")
      (simp_all add: restart_def Vapush_new_def new_object_def saveSubscriptions_writable[OF assms(2)])
  have ld: "loadSubscriptions (restart ?s1) = (Inr (), assign_subscriptions ?es (restart ?s1))"
    using loadSubscriptions_reads[of "restart ?s1" s] disk d by (simp add: dir)
  have "map_of ?es = stored s (this_subscriptions s)"
    by (simp add: fun_eq_iff map_of_map_snd stored_def map_of_own_entries[OF d])
  then show ?thesis
    by (simp add: ok ld stored_assign_subscriptions)
qed

theorem save_load_roundtrip_witness:
  "well_formed two_store
   \<and> fst (loadSubscriptions (restart (snd (saveSubscriptions two_store)))) = Inr ()
   \<and> stored (snd (loadSubscriptions (restart (snd (saveSubscriptions two_store)))))
        (this_subscriptions (snd (loadSubscriptions (restart (snd (saveSubscriptions two_store))))))
        ''alice''
      = Some \<lparr>subscription = example_descriptor ''a'',
              createdAt = ''2024-01-01T00:00:00.000Z'', name = Some ''phone''\<rparr>
   \<and> stored (snd (loadSubscriptions (restart (snd (saveSubscriptions two_store)))))
        (this_subscriptions (snd (loadSubscriptions (restart (snd (saveSubscriptions two_store))))))
        ''bob''
      = Some \<lparr>subscription = example_descriptor ''b'',
              createdAt = ''2024-01-01T00:00:01.000Z'', name = None\<rparr>"
proof -
  have wf: "well_formed two_store"
    by (simp add: well_formed_def two_store_facts)
  have w: "\<not> unwritable two_store (path_join (this_dataDir two_store) ''subscriptions.json'')"
    by (simp add: two_store_facts)
  have a: "stored two_store (this_subscriptions two_store) ''alice''
      = Some \<lparr>subscription = example_descriptor ''a'',
              createdAt = ''2024-01-01T00:00:00.000Z'', name = Some ''phone''\<rparr>"
    by (simp add: stored_def two_store_facts)
  have b: "stored two_store (this_subscriptions two_store) ''bob''
      = Some \<lparr>subscription = example_descriptor ''b'',
              createdAt = ''2024-01-01T00:00:01.000Z'', name = None\<rparr>"
    by (simp add: stored_def two_store_facts)
  show ?thesis
    using save_load_roundtrip[OF wf w] wf a b by simp
qed

section \<open>\<^verbatim>\<open>loadOrCreateKeys\<close>\<close>

lemma createKeys_eq:
  "createKeys p s =
     (if unwritable s p then (Inl IOError, s\<lparr>generated := Suc (generated s)\<rparr>)
      else (Inr (VapidKeys_json (created_keys s)),
            s\<lparr>generated := Suc (generated s),
              files := (files s)(p \<mapsto>
                 (case files s p of
                    None \<Rightarrow> \<lparr>content = JSON_stringify 2 (VapidKeys_json (created_keys s)), mode = 384\<rparr>
                  | Some f \<Rightarrow> f\<lparr>content := JSON_stringify 2 (VapidKeys_json (created_keys s))\<rparr>)),
              writes := writes s @ [p]\<rparr>))"
proof -
  obtain a b where kg: "keygen s (generated s) = (a, b)"
    by (cases "keygen s (generated s)")
  have ck: "created_keys s = \<lparr>publicKey = a, privateKey = b, subject = this_subject s\<rparr>"
    by (simp add: created_keys_def kg)
  show ?thesis
    unfolding ck
    by (cases "files s p") (simp_all add: createKeys_def generateVAPIDKeys_def writeFile_def Let_def kg)
qed

lemma createKeys_result:
  assumes "createKeys p s = (Inr j, s1)"
  shows "j = VapidKeys_json (created_keys s)"
    and "this_dataDir s1 = this_dataDir s"
    and "generated s1 = Suc (generated s)"
    and "writes s1 = writes s @ [p]"
    and "map_option content (files s1 p) = Some (JSON_stringify 2 j)"
    and "map_option mode (files s1 p) = Some (case files s p of None \<Rightarrow> 384 | Some f \<Rightarrow> mode f)"
    and "q \<noteq> p \<Longrightarrow> files s1 q = files s q"
proof -
  have w: "\<not> unwritable s p"
    using assms by (auto simp: createKeys_eq split: if_splits)
  have s1: "s1 = s\<lparr>generated := Suc (generated s),
              files := (files s)(p \<mapsto>
                 (case files s p of
                    None \<Rightarrow> \<lparr>content = JSON_stringify 2 (VapidKeys_json (created_keys s)), mode = 384\<rparr>
                  | Some f \<Rightarrow> f\<lparr>content := JSON_stringify 2 (VapidKeys_json (created_keys s))\<rparr>)),
              writes := writes s @ [p]\<rparr>"
    using assms w by (simp add: createKeys_eq)
  show j: "j = VapidKeys_json (created_keys s)"
    using assms w by (simp add: createKeys_eq)
  show "this_dataDir s1 = this_dataDir s" "generated s1 = Suc (generated s)"
    "writes s1 = writes s @ [p]"
    by (simp_all add: s1)
  show "map_option content (files s1 p) = Some (JSON_stringify 2 j)"
    by (cases "files s p") (simp_all add: s1 j)
  show "map_option mode (files s1 p) = Some (case files s p of None \<Rightarrow> 384 | Some f \<Rightarrow> mode f)"
    by (cases "files s p") (simp_all add: s1)
  show "q \<noteq> p \<Longrightarrow> files s1 q = files s q"
    by (simp add: s1)
qed

text \<open>
  Whatever instance runs on a location whose key file parses gets the value in the file,
  and leaves everything as it is.
\<close>

lemma loadOrCreateKeys_loads:
  assumes "map_option (\<lambda>f. JSON_parse (content f)) (files t (path_join (this_dataDir t) ''vapid.json''))
           = Some (Some j)"
  shows "loadOrCreateKeys t = (Inr j, t)"
proof -
  obtain f where f: "files t (path_join (this_dataDir t) ''vapid.json'') = Some f"
    and j: "JSON_parse (content f) = Some j"
    using assms by auto
  have "readFile (path_join (this_dataDir t) ''vapid.json'') t = Inr (content f)"
    by (simp add: readFile_def f)
  then show ?thesis
    by (simp add: loadOrCreateKeys_def j)
qed

lemma loadOrCreateKeys_generates:
  assumes "\<And>j. map_option (\<lambda>f. JSON_parse (content f))
                  (files s (path_join (this_dataDir s) ''vapid.json'')) \<noteq> Some (Some j)"
  shows "loadOrCreateKeys s = createKeys (path_join (this_dataDir s) ''vapid.json'') s"
proof (cases "files s (path_join (this_dataDir s) ''vapid.json'')")
  case None
  then show ?thesis by (simp add: loadOrCreateKeys_def readFile_def)
next
  case (Some f)
  then have "JSON_parse (content f) = None"
    using assms by (cases "JSON_parse (content f)") auto
  then show ?thesis
    using Some by (simp add: loadOrCreateKeys_def readFile_def)
qed

text \<open>
  C6. Let a first call of \<^verbatim>\<open>loadOrCreateKeys\<close> return the value \<open>j\<close>. Then the key file of the
  location holds a text that \<^verbatim>\<open>JSON.parse\<close> reads as \<open>j\<close>. A second call returns \<open>j\<close> and
  changes nothing: it generates no key pair and writes no file. So does a call of any
  instance on that location with that key file, such as the one made after a restart, so the
  value comes from the file and from nothing the first instance kept in memory. The first
  call itself returned the value of a file that parses and changed nothing, or else generated
  one key pair and wrote it, as the JSON text of the record, in one write.
\<close>

theorem loadOrCreateKeys_idempotent:
  assumes "loadOrCreateKeys s = (Inr j, s1)"
  shows "this_dataDir s1 = this_dataDir s
     \<and> map_option (\<lambda>f. JSON_parse (content f)) (files s1 (path_join (this_dataDir s) ''vapid.json''))
         = Some (Some j)
     \<and> loadOrCreateKeys s1 = (Inr j, s1)
     \<and> (\<forall>t. this_dataDir t = this_dataDir s
             \<and> files t (path_join (this_dataDir s) ''vapid.json'')
                 = files s1 (path_join (this_dataDir s) ''vapid.json'')
            \<longrightarrow> loadOrCreateKeys t = (Inr j, t))
     \<and> (if map_option (\<lambda>f. JSON_parse (content f)) (files s (path_join (this_dataDir s) ''vapid.json''))
            = Some (Some j)
         then s1 = s
         else (\<forall>j0. map_option (\<lambda>f. JSON_parse (content f))
                      (files s (path_join (this_dataDir s) ''vapid.json'')) \<noteq> Some (Some j0))
              \<and> j = VapidKeys_json (created_keys s)
              \<and> generated s1 = Suc (generated s)
              \<and> writes s1 = writes s @ [path_join (this_dataDir s) ''vapid.json'']
              \<and> map_option content (files s1 (path_join (this_dataDir s) ''vapid.json''))
                  = Some (JSON_stringify 2 j))"
proof -
  let ?p = "path_join (this_dataDir s) ''vapid.json''"
  let ?disk = "\<lambda>u. map_option (\<lambda>f. JSON_parse (content f)) (files u ?p)"
  have first: "this_dataDir s1 = this_dataDir s \<and> ?disk s1 = Some (Some j)
     \<and> (if ?disk s = Some (Some j) then s1 = s
         else (\<forall>j0. ?disk s \<noteq> Some (Some j0))
              \<and> j = VapidKeys_json (created_keys s)
              \<and> generated s1 = Suc (generated s)
              \<and> writes s1 = writes s @ [?p]
              \<and> map_option content (files s1 ?p) = Some (JSON_stringify 2 j))"
  proof (cases "\<exists>j0. ?disk s = Some (Some j0)")
    case True
    then obtain j0 where j0: "?disk s = Some (Some j0)" ..
    have "loadOrCreateKeys s = (Inr j0, s)"
      by (rule loadOrCreateKeys_loads[OF j0])
    then have "j = j0" "s1 = s" using assms by simp_all
    then show ?thesis using j0 by simp
  next
    case False
    then have no: "\<And>j0. ?disk s \<noteq> Some (Some j0)" by simp
    have ck: "createKeys ?p s = (Inr j, s1)"
      using loadOrCreateKeys_generates[OF no] assms by simp
    note r = createKeys_result[OF ck]
    have j: "j = VapidKeys_json (created_keys s)" by (rule r(1))
    obtain f where f: "files s1 ?p = Some f" and c: "content f = JSON_stringify 2 j"
      using r(5) by auto
    have "JSON_parse (content f) = Some j"
      unfolding c j by (rule JSON_parse_stringify[OF plain_VapidKeys_json])
    then have disk1: "?disk s1 = Some (Some j)" by (simp add: f)
    have nj: "?disk s \<noteq> Some (Some j)" by (rule no)
    have rest: "(\<forall>j0. ?disk s \<noteq> Some (Some j0))
              \<and> j = VapidKeys_json (created_keys s)
              \<and> generated s1 = Suc (generated s)
              \<and> writes s1 = writes s @ [?p]
              \<and> map_option content (files s1 ?p) = Some (JSON_stringify 2 j)"
      using no r(3,4,5) j by blast
    show ?thesis
      unfolding if_not_P[OF nj] using r(2) disk1 rest by blast
  qed
  then have dir: "this_dataDir s1 = this_dataDir s" and disk: "?disk s1 = Some (Some j)"
    by simp_all
  have again: "loadOrCreateKeys t = (Inr j, t)"
    if "this_dataDir t = this_dataDir s" and "files t ?p = files s1 ?p" for t
    using loadOrCreateKeys_loads[of t j] disk that by simp
  have second: "loadOrCreateKeys s1 = (Inr j, s1)"
    by (rule again) (simp_all add: dir)
  show ?thesis
    using first second again by blast
qed

text \<open>
  The first call returns whenever there is no key file and the path is writable: it
  generates one key pair and writes the file with mode \<^verbatim>\<open>0o600\<close>. It is rejected only when
  there is no key file that parses and the path cannot be written.
\<close>

lemma loadOrCreateKeys_creates:
  assumes "files s (path_join (this_dataDir s) ''vapid.json'') = None"
    and "\<not> unwritable s (path_join (this_dataDir s) ''vapid.json'')"
  shows "fst (loadOrCreateKeys s) = Inr (VapidKeys_json (created_keys s))
     \<and> generated (snd (loadOrCreateKeys s)) = Suc (generated s)
     \<and> map_option mode (files (snd (loadOrCreateKeys s)) (path_join (this_dataDir s) ''vapid.json''))
         = Some 384"
proof -
  have "loadOrCreateKeys s = createKeys (path_join (this_dataDir s) ''vapid.json'') s"
    using assms(1) by (simp add: loadOrCreateKeys_def readFile_def)
  then show ?thesis
    using assms by (simp add: createKeys_eq)
qed

lemma loadOrCreateKeys_rejects:
  assumes "fst (loadOrCreateKeys s) = Inl e"
  shows "e = IOError \<and> unwritable s (path_join (this_dataDir s) ''vapid.json'')
     \<and> map_option (\<lambda>f. JSON_parse (content f)) (files s (path_join (this_dataDir s) ''vapid.json''))
         \<noteq> Some (Some j)"
proof -
  let ?p = "path_join (this_dataDir s) ''vapid.json''"
  have no: "map_option (\<lambda>f. JSON_parse (content f)) (files s ?p) \<noteq> Some (Some j0)" for j0
    using assms loadOrCreateKeys_loads[of s j0] by auto
  have "loadOrCreateKeys s = createKeys ?p s"
    by (rule loadOrCreateKeys_generates[OF no])
  then show ?thesis
    using assms no by (auto simp: createKeys_eq split: if_splits)
qed

lemma example_store_disk:
  "files example_store = (\<lambda>p. None)"
  "generated example_store = 0"
  "keygen example_store = (\<lambda>n. (''BPub'' @ [hex_digit n], ''priv'' @ [hex_digit n]))"
  "this_subject example_store = ''mailto:vapush@localhost''"
  "writes example_store = []"
  by (simp_all add: example_store_def example_machine_def Vapush_new_def new_object_def)

lemma restart_disk:
  "this_dataDir (restart s) = this_dataDir s"
  "files (restart s) = files s"
  "this_keys (restart s) = None"
  "generated (restart s) = generated s"
  "writes (restart s) = writes s"
  by (simp_all add: restart_def Vapush_new_def new_object_def)

theorem loadOrCreateKeys_idempotent_witness:
  "fst (loadOrCreateKeys example_store)
     = Inr (VapidKeys_json \<lparr>publicKey = ''BPub0'', privateKey = ''priv0'',
                            subject = ''mailto:vapush@localhost''\<rparr>)
   \<and> generated (snd (loadOrCreateKeys example_store)) = 1
   \<and> writes (snd (loadOrCreateKeys example_store)) = [''/data/vapid.json'']
   \<and> map_option content (files (snd (loadOrCreateKeys example_store)) ''/data/vapid.json'')
       = Some (JSON_stringify 2 (VapidKeys_json \<lparr>publicKey = ''BPub0'', privateKey = ''priv0'',
                                                 subject = ''mailto:vapush@localhost''\<rparr>))
   \<and> loadOrCreateKeys (snd (loadOrCreateKeys example_store))
       = (Inr (VapidKeys_json \<lparr>publicKey = ''BPub0'', privateKey = ''priv0'',
                               subject = ''mailto:vapush@localhost''\<rparr>),
          snd (loadOrCreateKeys example_store))
   \<and> this_keys (restart (snd (loadOrCreateKeys example_store))) = None
   \<and> loadOrCreateKeys (restart (snd (loadOrCreateKeys example_store)))
       = (Inr (VapidKeys_json \<lparr>publicKey = ''BPub0'', privateKey = ''priv0'',
                               subject = ''mailto:vapush@localhost''\<rparr>),
          restart (snd (loadOrCreateKeys example_store)))
   \<and> generated (restart (snd (loadOrCreateKeys example_store))) = 1
   \<and> loadOrCreateKeys edited_store = (Inr edited_keys, edited_store)
   \<and> loadOrCreateKeys (restart edited_store) = (Inr edited_keys, restart edited_store)"
proof -
  let ?k = "\<lparr>publicKey = ''BPub0'', privateKey = ''priv0'', subject = ''mailto:vapush@localhost''\<rparr>"
  let ?s1 = "snd (loadOrCreateKeys example_store)"
  have p: "path_join ''/data'' ''vapid.json'' = ''/data/vapid.json''"
    by (simp add: path_join_def)
  have ck: "created_keys example_store = ?k"
    by (simp add: created_keys_def example_store_disk hex_digit_small)
  have none: "files example_store (path_join (this_dataDir example_store) ''vapid.json'') = None"
    by (simp add: example_store_disk)
  have w: "\<not> unwritable example_store (path_join (this_dataDir example_store) ''vapid.json'')"
    by (simp add: example_store_facts)
  have first: "fst (loadOrCreateKeys example_store) = Inr (VapidKeys_json ?k)"
    using loadOrCreateKeys_creates[OF none w] by (simp add: ck)
  have run: "loadOrCreateKeys example_store = (Inr (VapidKeys_json ?k), ?s1)"
    using first by (simp add: prod_eq_iff)
  note made = loadOrCreateKeys_idempotent[OF run, unfolded example_store_facts p]
  have gen: "generated ?s1 = 1" "writes ?s1 = [''/data/vapid.json'']"
    "map_option content (files ?s1 ''/data/vapid.json'') = Some (JSON_stringify 2 (VapidKeys_json ?k))"
    using made by (simp_all add: example_store_disk ck)
  have second: "loadOrCreateKeys ?s1 = (Inr (VapidKeys_json ?k), ?s1)"
    using made by simp
  have dir1: "this_dataDir ?s1 = ''/data''"
    using made by simp
  have after: "loadOrCreateKeys (restart ?s1) = (Inr (VapidKeys_json ?k), restart ?s1)"
    using made by (simp add: restart_disk dir1)
  have ep: "plain edited_keys"
    by (simp add: edited_keys_def)
  have edir: "this_dataDir edited_store = ''/data''"
    by (simp add: edited_store_def example_store_facts)
  have edisk: "map_option (\<lambda>f. JSON_parse (content f))
                 (files edited_store (path_join (this_dataDir edited_store) ''vapid.json''))
               = Some (Some edited_keys)"
    unfolding edir p by (simp add: edited_store_def JSON_parse_stringify[OF ep])
  have erun: "loadOrCreateKeys edited_store = (Inr edited_keys, edited_store)"
    by (rule loadOrCreateKeys_loads[OF edisk])
  note loaded = loadOrCreateKeys_idempotent[OF erun, unfolded edir p]
  have eafter: "loadOrCreateKeys (restart edited_store) = (Inr edited_keys, restart edited_store)"
    using loaded by (simp add: restart_disk edir)
  show ?thesis
    using first gen second after erun eafter by (simp add: restart_disk)
qed

section \<open>\<^verbatim>\<open>push\<close>\<close>

lemma sendNotification_Some:
  "sendNotification (Some d) payload s =
     (push_service s (length (sent s)) d payload, s\<lparr>sent := sent s @ [(Some d, payload)]\<rparr>)"
  by (simp add: sendNotification_def)

lemma attempt_own:
  "map_of (own (objects s (this_subscriptions s))) sid = Some r \<Longrightarrow>
   attempt payload sid s =
     (push_service s (length (sent s)) (subscription (records s r)) payload,
      s\<lparr>sent := sent s @ [(Some (subscription (records s r)), payload)]\<rparr>)"
  by (simp add: attempt_def Get_own subscription_of_def sendNotification_Some)

lemma attempts_own:
  assumes "\<forall>p \<in> set es. map_of (own (objects s (this_subscriptions s))) (fst p) = Some (snd p)"
  shows "attempts payload (map fst es) s =
     (map (\<lambda>(i, p). (fst p, push_service s i (subscription (records s (snd p))) payload))
          (enumerate (length (sent s)) es),
      s\<lparr>sent := sent s @ map (\<lambda>p. (Some (subscription (records s (snd p))), payload)) es\<rparr>)"
  using assms
proof (induction es arbitrary: s)
  case Nil
  then show ?case by simp
next
  case (Cons e es)
  let ?s1 = "s\<lparr>sent := sent s @ [(Some (subscription (records s (snd e))), payload)]\<rparr>"
  have a: "attempt payload (fst e) s =
      (push_service s (length (sent s)) (subscription (records s (snd e))) payload, ?s1)"
    using Cons.prems by (simp add: attempt_own)
  have "\<forall>p \<in> set es. map_of (own (objects ?s1 (this_subscriptions ?s1))) (fst p) = Some (snd p)"
    using Cons.prems by simp
  from Cons.IH[OF this] show ?case
    by (simp add: a)
qed

lemma own_entries_lookup:
  "distinct (map fst ps) \<Longrightarrow> p \<in> set (own_entries ps) \<Longrightarrow> map_of ps (fst p) = Some (snd p)"
  by (simp add: set_own_entries)

lemma attempts_responses:
  assumes "well_formed s"
  shows "attempts payload (Object_keys s (this_subscriptions s)) s =
     (responses payload s,
      s\<lparr>sent := sent s @ map (\<lambda>p. (Some (subscription (records s (snd p))), payload))
                            (own_entries (own (objects s (this_subscriptions s))))\<rparr>)"
proof -
  have d: "distinct (map fst (own (objects s (this_subscriptions s))))"
    using assms by (simp add: well_formed_def)
  have "\<forall>p \<in> set (own_entries (own (objects s (this_subscriptions s)))).
          map_of (own (objects s (this_subscriptions s))) (fst p) = Some (snd p)"
    using own_entries_lookup[OF d] by blast
  from attempts_own[OF this] show ?thesis
    by (simp add: Object_keys_def responses_def)
qed

lemma fold_Delete:
  "this_subscriptions (fold (Delete ob) ks s) = this_subscriptions s"
  "this_dataDir (fold (Delete ob) ks s) = this_dataDir s"
  "records (fold (Delete ob) ks s) = records s"
  "next_record (fold (Delete ob) ks s) = next_record s"
  "next_object (fold (Delete ob) ks s) = next_object s"
  "writes (fold (Delete ob) ks s) = writes s"
  "unwritable (fold (Delete ob) ks s) = unwritable s"
  "sent (fold (Delete ob) ks s) = sent s"
  "own (objects (fold (Delete ob) ks s) ob) = filter (\<lambda>p. fst p \<notin> set ks) (own (objects s ob))"
  by (induction ks arbitrary: s) (auto simp: Delete_def intro: filter_cong)

lemma fold_Delete_files: "files (fold (Delete ob) ks s) = files s"
  by (induction ks arbitrary: s) (auto simp: Delete_def)

text \<open>
  When the subscription file holds the text of the map in memory, a new instance started on
  the same disk loads that map.
\<close>

lemma loadSubscriptions_restart:
  assumes "map_option content (files s (path_join (this_dataDir s) ''subscriptions.json''))
           = Some (JSON_stringify 2 (subscriptions_json s))"
    and "distinct (map fst (own (objects s (this_subscriptions s))))"
  shows "fst (loadSubscriptions (restart s)) = Inr ()"
    and "stored (snd (loadSubscriptions (restart s)))
           (this_subscriptions (snd (loadSubscriptions (restart s))))
         = stored s (this_subscriptions s)"
proof -
  let ?own = "own (objects s (this_subscriptions s))"
  let ?es = "map (\<lambda>p. (fst p, records s (snd p))) (own_entries ?own)"
  have dir: "this_dataDir (restart s) = this_dataDir s" and fs: "files (restart s) = files s"
    by (simp_all add: restart_def Vapush_new_def new_object_def)
  have ld: "loadSubscriptions (restart s) = (Inr (), assign_subscriptions ?es (restart s))"
    using loadSubscriptions_reads[of "restart s" s] assms by (simp add: dir fs)
  have m: "map_of ?es = stored s (this_subscriptions s)"
    by (simp add: fun_eq_iff map_of_map_snd stored_def map_of_own_entries[OF assms(2)])
  show "fst (loadSubscriptions (restart s)) = Inr ()"
    by (simp add: ld)
  show "stored (snd (loadSubscriptions (restart s)))
           (this_subscriptions (snd (loadSubscriptions (restart s))))
         = stored s (this_subscriptions s)"
    using m by (simp add: ld stored_assign_subscriptions)
qed

lemma map_of_filter_key:
  "map_of (filter (\<lambda>p. fst p \<notin> G) ps) k = (if k \<in> G then None else map_of ps k)"
  by (induction ps) auto

lemma length_own_entries: "length (own_entries ps) = length ps"
  using sum_length_filter_compl[of "\<lambda>p. is_array_index (fst p)" ps]
  by (simp add: own_entries_def)

lemma length_responses:
  "length (responses payload s) = length (own (objects s (this_subscriptions s)))"
  by (simp add: responses_def length_own_entries)

lemma outcome_partition:
  "length (filter (\<lambda>p. snd p = Delivered) rs)
   + length (filter (\<lambda>p. is_gone (snd p)) rs)
   + length (filter (\<lambda>p. snd p \<noteq> Delivered \<and> \<not> is_gone (snd p)) rs) = length rs"
  by (induction rs) (auto simp: is_gone_def)

lemma failed_partition:
  "length (filter (\<lambda>p. snd p \<noteq> Delivered) rs)
   = length (filter (\<lambda>p. is_gone (snd p)) rs)
   + length (filter (\<lambda>p. snd p \<noteq> Delivered \<and> \<not> is_gone (snd p)) rs)"
  by (induction rs) (auto simp: is_gone_def)

text \<open>
  C1. Let the store hold \<open>N\<close> subscriptions when \<^verbatim>\<open>push\<close> is called, let \<open>K\<close> of the
  attempts be rejected with status 404 or 410 and \<open>F\<close> with anything else. On a writable
  path \<^verbatim>\<open>push\<close> makes one attempt for each subscriber and returns \<open>(N - K - F, K + F)\<close>;
  afterward exactly the \<open>K\<close> identifiers are gone and every other identifier has its record
  as before. When \<open>K = 0\<close> no file is written and the disk is as it was. When \<open>K > 0\<close> the
  subscription file, and no other, is written once, and what it then holds is the text of
  the map after the removals: a new instance started on that disk loads exactly the
  subscribers that were kept.
\<close>

theorem push_counts_and_pruning:
  assumes "well_formed s"
    and "\<not> unwritable s (path_join (this_dataDir s) ''subscriptions.json'')"
  shows "let payload = JSON_stringify 0 (payload_json title body url);
             rs = responses payload s;
             gone = map fst (filter (\<lambda>p. is_gone (snd p)) rs);
             N = length (own (objects s (this_subscriptions s)));
             K = length gone;
             F = length (filter (\<lambda>p. snd p \<noteq> Delivered \<and> \<not> is_gone (snd p)) rs);
             subFile = path_join (this_dataDir s) ''subscriptions.json'';
             s' = snd (push title body url s);
             s'' = snd (loadSubscriptions (restart s'))
         in fst (push title body url s) = Inr (N - K - F, K + F)
            \<and> K + F \<le> N
            \<and> this_subscriptions s' = this_subscriptions s
            \<and> (\<forall>k. stored s' (this_subscriptions s') k
                     = (if k \<in> set gone then None else stored s (this_subscriptions s) k))
            \<and> writes s' = writes s @ (if K = 0 then [] else [subFile])
            \<and> sent s' = sent s @ map (\<lambda>p. (Some (subscription (records s (snd p))), payload))
                                      (own_entries (own (objects s (this_subscriptions s))))
            \<and> (\<forall>q. q \<noteq> subFile \<longrightarrow> files s' q = files s q)
            \<and> (if K = 0 then files s' = files s
                else map_option content (files s' subFile)
                       = Some (JSON_stringify 2 (subscriptions_json s'))
                     \<and> fst (loadSubscriptions (restart s')) = Inr ()
                     \<and> (\<forall>k. stored s'' (this_subscriptions s'') k
                              = (if k \<in> set gone then None else stored s (this_subscriptions s) k)))"
proof -
  define payload where "payload = JSON_stringify 0 (payload_json title body url)"
  define rs where "rs = responses payload s"
  define gone where "gone = map fst (filter (\<lambda>p. is_gone (snd p)) rs)"
  define s1 where "s1 = s\<lparr>sent := sent s @ map (\<lambda>p. (Some (subscription (records s (snd p))), payload))
                            (own_entries (own (objects s (this_subscriptions s))))\<rparr>"
  define s2 where "s2 = fold (Delete (this_subscriptions s)) gone s1"
  define succ where "succ = length (filter (\<lambda>p. snd p = Delivered) rs)"
  define failed where "failed = length (filter (\<lambda>p. snd p \<noteq> Delivered) rs)"
  define F where "F = length (filter (\<lambda>p. snd p \<noteq> Delivered \<and> \<not> is_gone (snd p)) rs)"
  define s3 where "s3 = snd (push title body url s)"
  let ?p = "path_join (this_dataDir s) ''subscriptions.json''"
  have at: "attempts payload (Object_keys s (this_subscriptions s)) s = (rs, s1)"
    by (simp add: attempts_responses[OF assms(1)] rs_def s1_def)
  have run: "push title body url s =
      (if gone \<noteq> [] then
         (case saveSubscriptions s2 of
            (Inl e, s3) \<Rightarrow> (Inl e, s3)
          | (Inr u, s3) \<Rightarrow> (Inr (succ, failed), s3))
       else (Inr (succ, failed), s2))"
    unfolding push_def Let_def payload_def[symmetric] at succ_def failed_def gone_def s2_def
    by (simp add: s1_def)
  have K: "length gone = length (filter (\<lambda>p. is_gone (snd p)) rs)"
    by (simp add: gone_def)
  have N: "length rs = length (own (objects s (this_subscriptions s)))"
    by (simp add: rs_def length_responses)
  have part: "succ + length gone + F = length rs"
    using outcome_partition[of rs] by (simp add: succ_def K F_def)
  have fl: "failed = length gone + F"
    using failed_partition[of rs] by (simp add: failed_def K F_def)
  have counts: "(succ, failed) = (length (own (objects s (this_subscriptions s))) - length gone - F, length gone + F)"
    using part fl N by simp
  have le: "length gone + F \<le> length (own (objects s (this_subscriptions s)))"
    using part N by simp
  have this2: "this_subscriptions s2 = this_subscriptions s"
    by (simp add: s2_def fold_Delete s1_def)
  have st2: "\<And>k. stored s2 (this_subscriptions s) k
              = (if k \<in> set gone then None else stored s (this_subscriptions s) k)"
    by (simp add: stored_def s2_def fold_Delete map_of_filter_key s1_def)
  have w2: "writes s2 = writes s"
    by (simp add: s2_def fold_Delete s1_def)
  have sent2: "sent s2 = sent s @ map (\<lambda>p. (Some (subscription (records s (snd p))), payload))
                                      (own_entries (own (objects s (this_subscriptions s))))"
    by (simp add: s2_def fold_Delete s1_def)
  have files2: "files s2 = files s"
    by (simp add: s2_def fold_Delete_files s1_def)
  have dir: "this_dataDir s2 = this_dataDir s" and uw: "unwritable s2 = unwritable s"
    by (simp_all add: s2_def fold_Delete s1_def)
  have wr: "\<not> unwritable s2 (path_join (this_dataDir s2) ''subscriptions.json'')"
    using assms(2) by (simp add: dir uw)
  have res: "fst (push title body url s) = Inr (succ, failed)
      \<and> this_subscriptions s3 = this_subscriptions s
      \<and> (\<forall>k. stored s3 (this_subscriptions s) k
                = (if k \<in> set gone then None else stored s (this_subscriptions s) k))
      \<and> writes s3 = writes s @ (if length gone = 0 then [] else [?p])
      \<and> sent s3 = sent s @ map (\<lambda>p. (Some (subscription (records s (snd p))), payload))
                                 (own_entries (own (objects s (this_subscriptions s))))
      \<and> (\<forall>q. q \<noteq> ?p \<longrightarrow> files s3 q = files s q)"
  proof (cases "gone = []")
    case True
    then show ?thesis
      using this2 st2 w2 sent2 files2 by (simp add: s3_def run)
  next
    case False
    show ?thesis
      using False this2 st2 w2 sent2 files2
      by (simp add: s3_def run saveSubscriptions_writable[OF wr] stored_def dir)
  qed
  have st3: "stored s3 (this_subscriptions s3) k
               = (if k \<in> set gone then None else stored s (this_subscriptions s) k)" for k
    using res by simp
  have disk: "if length gone = 0 then files s3 = files s
              else map_option content (files s3 ?p) = Some (JSON_stringify 2 (subscriptions_json s3))
                   \<and> fst (loadSubscriptions (restart s3)) = Inr ()
                   \<and> (\<forall>k. stored (snd (loadSubscriptions (restart s3)))
                              (this_subscriptions (snd (loadSubscriptions (restart s3)))) k
                            = (if k \<in> set gone then None else stored s (this_subscriptions s) k))"
  proof (cases "gone = []")
    case True
    then show ?thesis
      using files2 by (simp add: s3_def run)
  next
    case False
    define T where "T = JSON_stringify 2 (subscriptions_json s2)"
    have s3: "s3 = s2\<lparr>files := (files s2)(?p \<mapsto>
                       (case files s2 ?p of
                          None \<Rightarrow> \<lparr>content = T, mode = 438\<rparr>
                        | Some f \<Rightarrow> f\<lparr>content := T\<rparr>)),
                     writes := writes s2 @ [?p]\<rparr>"
      unfolding T_def using False by (simp add: s3_def run saveSubscriptions_writable[OF wr] dir)
    have json3: "subscriptions_json s3 = subscriptions_json s2"
      by (simp add: s3 subscriptions_json_def)
    have dir3: "this_dataDir s3 = this_dataDir s"
      by (simp add: s3 dir)
    have c3: "map_option content (files s3 ?p) = Some (JSON_stringify 2 (subscriptions_json s3))"
      unfolding json3 T_def[symmetric] by (cases "files s2 ?p") (simp_all add: s3)
    have own3: "own (objects s3 (this_subscriptions s3))
                = filter (\<lambda>p. fst p \<notin> set gone) (own (objects s (this_subscriptions s)))"
      by (simp add: s3 s2_def fold_Delete s1_def)
    have d3: "distinct (map fst (own (objects s3 (this_subscriptions s3))))"
      unfolding own3 using assms(1) by (simp add: well_formed_def distinct_map_filter)
    have c3': "map_option content (files s3 (path_join (this_dataDir s3) ''subscriptions.json''))
               = Some (JSON_stringify 2 (subscriptions_json s3))"
      using c3 by (simp add: dir3)
    note ld = loadSubscriptions_restart[OF c3' d3]
    show ?thesis
      using False c3 ld(1) by (simp add: ld(2) st3)
  qed
  show ?thesis
    unfolding Let_def payload_def[symmetric] rs_def[symmetric] gone_def[symmetric] F_def[symmetric]
      s3_def[symmetric]
    using res disk counts le by simp
qed

theorem push_counts_and_pruning_witness:
  "well_formed three_store
   \<and> responses (JSON_stringify 0 (payload_json ''Alert'' ''Server rebooted'' None)) three_store
       = [(''alice'', Delivered), (''bob'', Rejected (Some 410)), (''carol'', Rejected (Some 500))]
   \<and> fst (push ''Alert'' ''Server rebooted'' None three_store) = Inr (1, 2)
   \<and> stored (snd (push ''Alert'' ''Server rebooted'' None three_store)) 0 ''bob'' = None
   \<and> stored (snd (push ''Alert'' ''Server rebooted'' None three_store)) 0 ''carol''
       = Some \<lparr>subscription = example_descriptor ''c'',
               createdAt = ''2024-01-01T00:00:02.000Z'', name = None\<rparr>
   \<and> writes (snd (push ''Alert'' ''Server rebooted'' None three_store))
       = writes three_store @ [''/data/subscriptions.json'']
   \<and> map_option content
        (files (snd (push ''Alert'' ''Server rebooted'' None three_store)) ''/data/subscriptions.json'')
       = Some (JSON_stringify 2
                (subscriptions_json (snd (push ''Alert'' ''Server rebooted'' None three_store))))
   \<and> fst (loadSubscriptions (restart (snd (push ''Alert'' ''Server rebooted'' None three_store))))
       = Inr ()
   \<and> stored (snd (loadSubscriptions (restart (snd (push ''Alert'' ''Server rebooted'' None three_store)))))
        (this_subscriptions
           (snd (loadSubscriptions (restart (snd (push ''Alert'' ''Server rebooted'' None three_store))))))
        ''bob'' = None
   \<and> stored (snd (loadSubscriptions (restart (snd (push ''Alert'' ''Server rebooted'' None three_store)))))
        (this_subscriptions
           (snd (loadSubscriptions (restart (snd (push ''Alert'' ''Server rebooted'' None three_store))))))
        ''carol''
       = Some \<lparr>subscription = example_descriptor ''c'',
               createdAt = ''2024-01-01T00:00:02.000Z'', name = None\<rparr>"
proof -
  let ?s' = "snd (push ''Alert'' ''Server rebooted'' None three_store)"
  let ?s'' = "snd (loadSubscriptions (restart ?s'))"
  have wf: "well_formed three_store"
    by (simp add: well_formed_def three_store_facts)
  have w: "\<not> unwritable three_store (path_join (this_dataDir three_store) ''subscriptions.json'')"
    by (simp add: three_store_facts)
  have p: "path_join ''/data'' ''subscriptions.json'' = ''/data/subscriptions.json''"
    by (simp add: path_join_def)
  have g: "is_gone (Rejected (Some 410))" "\<not> is_gone Delivered" "\<not> is_gone (Rejected (Some 500))"
    by (simp_all add: is_gone_def)
  have gone: "map fst (filter (\<lambda>p. is_gone (snd p))
        [(''alice'', Delivered), (''bob'', Rejected (Some 410)), (''carol'', Rejected (Some 500))])
      = [''bob'']"
    by (simp add: g)
  have other: "filter (\<lambda>p. snd p \<noteq> Delivered \<and> \<not> is_gone (snd p))
        [(''alice'', Delivered), (''bob'', Rejected (Some 410)), (''carol'', Rejected (Some 500))]
      = [(''carol'', Rejected (Some 500))]"
    by (simp add: g)
  note run = push_counts_and_pruning[OF wf w, of "''Alert''" "''Server rebooted''" None,
      unfolded Let_def three_store_responses gone other]
  have res: "fst (push ''Alert'' ''Server rebooted'' None three_store) = Inr (1, 2)"
    using run by (simp add: three_store_facts)
  have this': "this_subscriptions ?s' = 0"
    using run by (simp add: three_store_facts)
  have st: "\<And>k. stored ?s' 0 k = (if k \<in> set [''bob''] then None else stored three_store 0 k)"
    using run this' by (simp add: three_store_facts)
  have wr: "writes ?s' = writes three_store @ [''/data/subscriptions.json'']"
    using run by (simp add: three_store_facts p)
  have onDisk: "map_option content (files ?s' ''/data/subscriptions.json'')
                = Some (JSON_stringify 2 (subscriptions_json ?s'))"
    using run by (simp add: three_store_facts p)
  have ld: "fst (loadSubscriptions (restart ?s')) = Inr ()"
    using run by simp
  have st': "\<And>k. stored ?s'' (this_subscriptions ?s'') k
                 = (if k \<in> set [''bob''] then None else stored three_store 0 k)"
    using run by (simp add: three_store_facts)
  have bob: "stored ?s' 0 ''bob'' = None"
    unfolding st by simp
  have carol: "stored ?s' 0 ''carol''
       = Some \<lparr>subscription = example_descriptor ''c'',
               createdAt = ''2024-01-01T00:00:02.000Z'', name = None\<rparr>"
    unfolding st by (simp add: stored_def three_store_facts)
  have bob': "stored ?s'' (this_subscriptions ?s'') ''bob'' = None"
    unfolding st' by simp
  have carol': "stored ?s'' (this_subscriptions ?s'') ''carol''
       = Some \<lparr>subscription = example_descriptor ''c'',
               createdAt = ''2024-01-01T00:00:02.000Z'', name = None\<rparr>"
    unfolding st' by (simp add: stored_def three_store_facts)
  show ?thesis
    using wf res bob carol wr onDisk ld bob' carol' by (simp add: three_store_responses)
qed

section \<open>\<^verbatim>\<open>getSubscriptions\<close>\<close>

text \<open>
  C5, as the code has it. \<^verbatim>\<open>getSubscriptions\<close> returns a new object, not the reference
  \<^verbatim>\<open>this.subscriptions\<close>, with the same entries, which refer to the same records. Assigning
  or deleting an entry of the returned object leaves the store's map as it was.
\<close>

theorem getSubscriptions_copy:
  assumes "well_formed s"
  shows "fst (getSubscriptions s) \<noteq> this_subscriptions s
     \<and> this_subscriptions (snd (getSubscriptions s)) = this_subscriptions s
     \<and> map_of (own (objects (snd (getSubscriptions s)) (fst (getSubscriptions s))))
         = map_of (own (objects s (this_subscriptions s)))
     \<and> stored (snd (getSubscriptions s)) (fst (getSubscriptions s)) = stored s (this_subscriptions s)
     \<and> stored (snd (getSubscriptions s)) (this_subscriptions s) = stored s (this_subscriptions s)
     \<and> (\<forall>k r. stored (Set (fst (getSubscriptions s)) k r (snd (getSubscriptions s))) (this_subscriptions s)
                = stored s (this_subscriptions s))
     \<and> (\<forall>k. stored (Delete (fst (getSubscriptions s)) k (snd (getSubscriptions s))) (this_subscriptions s)
              = stored s (this_subscriptions s))"
proof -
  have lt: "this_subscriptions s < next_object s"
    and d: "distinct (map fst (own (objects s (this_subscriptions s))))"
    using assms by (simp_all add: well_formed_def)
  have ne: "next_object s \<noteq> this_subscriptions s" using lt by simp
  show ?thesis
    using ne
    by (simp add: getSubscriptions_def new_object_def stored_def Set_def Delete_def Let_def
        fun_eq_iff map_of_own_entries[OF d])
qed

theorem getSubscriptions_copy_witness:
  "well_formed two_store
   \<and> fst (getSubscriptions two_store) = 1
   \<and> this_subscriptions two_store = 0
   \<and> stored (snd (getSubscriptions two_store)) 1 ''bob''
       = Some \<lparr>subscription = example_descriptor ''b'',
               createdAt = ''2024-01-01T00:00:01.000Z'', name = None\<rparr>
   \<and> stored (Delete 1 ''bob'' (snd (getSubscriptions two_store))) 1 ''bob'' = None
   \<and> stored (Delete 1 ''bob'' (snd (getSubscriptions two_store))) 0 ''bob''
       = Some \<lparr>subscription = example_descriptor ''b'',
               createdAt = ''2024-01-01T00:00:01.000Z'', name = None\<rparr>"
proof -
  have wf: "well_formed two_store"
    by (simp add: well_formed_def two_store_facts)
  have l: "fst (getSubscriptions two_store) = Suc 0"
    by (simp add: getSubscriptions_def new_object_def two_store_facts)
  have bob: "stored two_store 0 ''bob''
       = Some \<lparr>subscription = example_descriptor ''b'',
               createdAt = ''2024-01-01T00:00:01.000Z'', name = None\<rparr>"
    by (simp add: stored_def two_store_facts)
  note copy = getSubscriptions_copy[OF wf, unfolded l two_store_facts(1)]
  have listed: "stored (snd (getSubscriptions two_store)) (Suc 0) = stored two_store 0"
    using copy by simp
  have kept: "stored (Delete (Suc 0) ''bob'' (snd (getSubscriptions two_store))) 0 = stored two_store 0"
    using copy by simp
  have removed: "stored (Delete (Suc 0) ''bob'' (snd (getSubscriptions two_store))) (Suc 0) ''bob'' = None"
    by (simp add: stored_def Delete_def map_of_filter_key[of "{''bob''}", simplified] map_of_eq_None_iff image_iff)
  show ?thesis
    using wf l bob removed by (simp add: listed kept two_store_facts)
qed

text \<open>
  C5, as stated, also promises that a change of a record found in the returned object
  leaves the store unchanged. The copy is one level deep: the record of \<^verbatim>\<open>alice\<close> in the
  returned object is the store's own record (reference 0), and after \<^verbatim>\<open>record.name =
  "renamed"\<close> through it the store shows the new name.
\<close>

theorem getSubscriptions_shares_records:
  "fst (getSubscriptions alice_store) = 1
   \<and> this_subscriptions alice_store = 0
   \<and> map_of (own (objects (snd (getSubscriptions alice_store)) 1)) ''alice'' = Some 0
   \<and> stored (snd (getSubscriptions alice_store)) 0 ''alice''
       = Some \<lparr>subscription = example_descriptor ''a'',
               createdAt = ''2024-01-01T00:00:00.000Z'', name = Some ''phone''\<rparr>
   \<and> stored (assign_name 0 (Some ''renamed'') (snd (getSubscriptions alice_store))) 0 ''alice''
       = Some \<lparr>subscription = example_descriptor ''a'',
               createdAt = ''2024-01-01T00:00:00.000Z'', name = Some ''renamed''\<rparr>"
proof -
  have e: "own_entries [(''alice'', 0::nat)] = [(''alice'', 0)]"
    by (simp add: own_entries_def is_array_index_def is_digit_def)
  show ?thesis
    by (simp add: getSubscriptions_def new_object_def stored_def assign_name_def alice_store_facts e)
qed

section \<open>The secret\<close>

lemma route_subscribe_check:
  assumes "in_body req = Some v"
  shows "(fst (route_subscribe secret req s) = unauthorized \<longleftrightarrow> v \<noteq> Some (JString secret))
     \<and> (v \<noteq> Some (JString secret) \<longrightarrow> snd (route_subscribe secret req s) = s)"
  using assms
  by (auto simp: in_body_def route_subscribe_def checkSecret_def unauthorized_def internal_error_def
      split: option.splits if_splits prod.splits sum.splits)

lemma route_unsubscribe_check:
  assumes "in_body req = Some v"
  shows "(fst (route_unsubscribe secret req s) = unauthorized \<longleftrightarrow> v \<noteq> Some (JString secret))
     \<and> (v \<noteq> Some (JString secret) \<longrightarrow> snd (route_unsubscribe secret req s) = s)"
  using assms
  by (auto simp: in_body_def route_unsubscribe_def checkSecret_def unauthorized_def internal_error_def
      split: option.splits if_splits prod.splits sum.splits)

lemma route_subscriptions_check:
  "(fst (route_subscriptions secret v s) = unauthorized \<longleftrightarrow> v \<noteq> secret)
   \<and> (v \<noteq> secret \<longrightarrow> snd (route_subscriptions secret v s) = s)"
  by (auto simp: route_subscriptions_def checkSecret_def unauthorized_def split: prod.splits)

lemma route_push_check:
  "(fst (route_push secret v req s) = unauthorized \<longleftrightarrow> v \<noteq> secret)
   \<and> (v \<noteq> secret \<longrightarrow> snd (route_push secret v req s) = s)"
  by (auto simp: route_push_def checkSecret_def unauthorized_def internal_error_def badRequest_def
      split: option.splits if_splits prod.splits sum.splits)

text \<open>
  C7. A request that reaches the comparison of \<^verbatim>\<open>subscribe\<close>, \<^verbatim>\<open>unsubscribe\<close>, the listing
  or \<^verbatim>\<open>push\<close> is answered with status 401 exactly when the value it supplies is not the
  string held in \<open>secret\<close>; a request answered so leaves the whole state as it was, so that
  the operation has not run.
\<close>

theorem secret_exact_match:
  assumes "supplied req = Some v"
  shows "(fst (handle secret req s) = unauthorized \<longleftrightarrow> v \<noteq> Some (JString secret))
     \<and> (v \<noteq> Some (JString secret) \<longrightarrow> snd (handle secret req s) = s)"
proof -
  have a: "req_method req \<noteq> ''OPTIONS''" and b: "pathname req \<noteq> ''/api/public-key''"
    using assms by (auto simp: supplied_def split: if_splits)
  consider
      (sub) "req_method req = ''POST''" "pathname req = ''/api/subscribe''"
    | (unsub) "req_method req = ''POST''" "pathname req = ''/api/unsubscribe''"
    | (list) w where "req_method req = ''GET''" "match_after ''/api/subscriptions/'' (pathname req) = Some w"
        "v = Some (JString w)"
    | (push) w where "req_method req = ''POST''" "pathname req \<noteq> ''/api/subscribe''"
        "pathname req \<noteq> ''/api/unsubscribe''"
        "match_after ''/api/push/'' (pathname req) = Some w" "v = Some (JString w)"
    using assms a b by (auto simp: supplied_def split: if_splits)
  then show ?thesis
  proof cases
    case sub
    then have "in_body req = Some v" using assms a b by (simp add: supplied_def)
    from route_subscribe_check[OF this] show ?thesis
      using sub a b by (simp add: handle_def)
  next
    case unsub
    then have "in_body req = Some v" using assms a b by (simp add: supplied_def)
    from route_unsubscribe_check[OF this] show ?thesis
      using unsub a b by (simp add: handle_def)
  next
    case list
    have nsub: "pathname req \<noteq> ''/api/subscribe''" "pathname req \<noteq> ''/api/unsubscribe''"
      using list(2) by (auto simp: match_after_def Let_def split: if_splits)
    show ?thesis
      using route_subscriptions_check[of secret w s] list a b nsub
      by (simp add: handle_def)
  next
    case push
    show ?thesis
      using route_push_check[of secret w req s] push a b
      by (simp add: handle_def)
  qed
qed

theorem secret_exact_match_witness:
  "supplied guess_push = Some (Some (JString ''guess''))
   \<and> fst (handle ''s3cret'' guess_push two_store) = unauthorized
   \<and> snd (handle ''s3cret'' guess_push two_store) = two_store
   \<and> supplied guess_unsubscribe = Some (Some (JString ''S3CRET''))
   \<and> fst (handle ''s3cret'' guess_unsubscribe two_store) = unauthorized
   \<and> snd (handle ''s3cret'' guess_unsubscribe two_store) = two_store
   \<and> supplied list_request = Some (Some (JString ''s3cret''))
   \<and> fst (handle ''s3cret'' list_request two_store) \<noteq> unauthorized"
proof -
  have p: "supplied guess_push = Some (Some (JString ''guess''))"
    by (simp add: supplied_def guess_push_def match_after_def)
  have parsed: "JSON_parse (req_body guess_unsubscribe)
      = Some (JObject [(''id'', JString ''alice''), (''secret'', JString ''S3CRET'')])"
    by (simp add: guess_unsubscribe_def JSON_parse_stringify)
  have u: "supplied guess_unsubscribe = Some (Some (JString ''S3CRET''))"
    by (simp add: supplied_def in_body_def parsed get_member_def)
      (simp add: guess_unsubscribe_def)
  have l: "supplied list_request = Some (Some (JString ''s3cret''))"
    by (simp add: supplied_def list_request_def match_after_def)
  show ?thesis
    using secret_exact_match[OF p, of "''s3cret''" two_store]
      secret_exact_match[OF u, of "''s3cret''" two_store]
      secret_exact_match[OF l, of "''s3cret''" two_store] p u l
    by simp
qed

text \<open>No other request is answered with status 401.\<close>

lemma only_mismatch_is_unauthorized:
  assumes "supplied req = None"
  shows "fst (handle secret req s) \<noteq> unauthorized"
proof -
  have body_routes: "in_body req = None \<Longrightarrow>
      fst (route_subscribe secret req s) \<noteq> unauthorized
      \<and> fst (route_unsubscribe secret req s) \<noteq> unauthorized"
    by (auto simp: in_body_def route_subscribe_def route_unsubscribe_def unauthorized_def
        internal_error_def badRequest_def split: option.splits if_splits)
  show ?thesis
    using assms body_routes
    by (auto simp: supplied_def handle_def unauthorized_def internal_error_def
        split: if_splits sum.splits option.splits)
qed

section \<open>Every method keeps the heap well formed\<close>

text \<open>
  The constructor makes a well-formed state (\<open>well_formed_Vapush_new\<close>) and
  \<^verbatim>\<open>subscribe\<close> keeps it (\<open>well_formed_subscribe\<close>); so do the other methods and the request
  handler. An object that \<^verbatim>\<open>JSON.parse\<close> returns has each key once, which
  \<^verbatim>\<open>loadSubscriptions\<close> relies on.
\<close>

lemma distinct_foldl_set_member:
  "distinct (map fst acc) \<Longrightarrow>
   distinct (map fst (foldl (\<lambda>acc (k, v). set_member k v acc) acc ms))"
  by (induction ms arbitrary: acc) (simp_all add: distinct_set_member case_prod_unfold)

lemma parse_literal_not_object: "parse_literal w v s = Some (JObject ms, r) \<Longrightarrow> v = JObject ms"
  by (simp add: parse_literal_def split: if_splits)

lemma parse_value_object_distinct:
  assumes "parse_value n s = Some (JObject ms, r)"
  shows "distinct (map fst ms)"
proof (cases n)
  case 0
  then show ?thesis using assms by simp
next
  case (Suc m)
  show ?thesis
  proof (cases "skip_ws s")
    case Nil
    then show ?thesis using assms Suc by simp
  next
    case (Cons c cs)
    show ?thesis
    proof (cases "c = CHR ''{''")
      case True
      show ?thesis
      proof (cases "skip_ws cs")
        case Nil
        then show ?thesis using assms Suc Cons True by simp
      next
        case inner: (Cons d r')
        show ?thesis
        proof (cases "d = CHR ''}''")
          case True
          then show ?thesis using assms Suc Cons \<open>c = CHR ''{''\<close> inner by simp
        next
          case False
          then obtain ms' where "members_object ms' = JObject ms"
            using assms Suc Cons \<open>c = CHR ''{''\<close> inner
            by (auto split: option.splits)
          then show ?thesis
            using distinct_foldl_set_member[of "[]" ms'] by (simp add: members_object_def)
        qed
      qed
    next
      case False
      have "False"
        using assms Suc Cons False
        by (auto split: if_splits list.splits option.splits dest: parse_literal_not_object)
      then show ?thesis ..
    qed
  qed
qed

lemma JSON_parse_object_distinct:
  "JSON_parse c = Some (JObject ms) \<Longrightarrow> distinct (map fst ms)"
  by (auto simp: JSON_parse_def simp del: parse_value.simps
      split: option.splits if_splits dest: parse_value_object_distinct)

lemma as_entries_keys: "as_entries ms = Some es \<Longrightarrow> map fst es = map fst ms"
  by (induction ms arbitrary: es) (auto split: option.splits)


lemma well_formed_loadSubscriptions:
  assumes "well_formed s"
  shows "well_formed (snd (loadSubscriptions s))"
proof -
  have empty: "well_formed (assign_subscriptions [] s)"
    by (rule well_formed_assign_subscriptions) simp
  have good: "well_formed (assign_subscriptions es s)"
    if p: "JSON_parse c = Some j" and a: "as_subscriptions j = Some es" for c j es
  proof -
    obtain ms where j: "j = JObject ms" and e: "as_entries ms = Some es"
      using a by (cases j) (simp_all add: as_subscriptions_def)
    have "distinct (map fst es)"
      using JSON_parse_object_distinct[of c ms] p j as_entries_keys[OF e] by simp
    then show ?thesis by (rule well_formed_assign_subscriptions)
  qed
  show ?thesis
  proof (cases "readFile (path_join (this_dataDir s) ''subscriptions.json'') s")
    case (Inl e)
    then show ?thesis using empty by (simp add: loadSubscriptions_def)
  next
    case (Inr c)
    show ?thesis
    proof (cases "JSON_parse c")
      case None
      then show ?thesis using empty Inr by (simp add: loadSubscriptions_def)
    next
      case (Some j)
      then show ?thesis
        using assms Inr good[OF Some]
        by (cases "as_subscriptions j") (simp_all add: loadSubscriptions_def)
    qed
  qed
qed

lemma well_formed_Delete:
  "well_formed s \<Longrightarrow> well_formed (Delete (this_subscriptions s) k s)"
  by (auto simp: well_formed_def Delete_def distinct_map_filter list_all_iff)

lemma snd_result_case:
  "snd (case p of (Inl e, s1) \<Rightarrow> (Inl e, s1) | (Inr u, s1) \<Rightarrow> (Inr (f u), s1)) = snd p"
  by (auto split: prod.splits sum.splits)

lemma snd_unsubscribe:
  "snd (unsubscribe sid s) =
     (if ToBoolean (Get s (this_subscriptions s) sid)
      then snd (saveSubscriptions (Delete (this_subscriptions s) sid s)) else s)"
  by (simp add: unsubscribe_def snd_result_case)

lemma well_formed_unsubscribe: "well_formed s \<Longrightarrow> well_formed (snd (unsubscribe sid s))"
  by (simp add: snd_unsubscribe well_formed_saveSubscriptions well_formed_Delete)

lemma well_formed_getSubscriptions: "well_formed s \<Longrightarrow> well_formed (snd (getSubscriptions s))"
  by (auto simp: getSubscriptions_def new_object_def well_formed_def)

lemma well_formed_fold_Delete:
  "well_formed s \<Longrightarrow> well_formed (fold (Delete (this_subscriptions s)) ks s)"
  by (auto simp: well_formed_def fold_Delete distinct_map_filter list_all_iff)

lemma snd_push:
  "snd (push title body url s) =
     (let payload = JSON_stringify 0 (payload_json title body url);
          results = fst (attempts payload (Object_keys s (this_subscriptions s)) s);
          s1 = snd (attempts payload (Object_keys s (this_subscriptions s)) s);
          toRemove = map fst (filter (\<lambda>p. is_gone (snd p)) results);
          s2 = fold (Delete (this_subscriptions s1)) toRemove s1
      in if toRemove \<noteq> [] then snd (saveSubscriptions s2) else s2)"
  by (simp add: push_def Let_def snd_result_case split: prod.splits)

lemma well_formed_push:
  assumes "well_formed s"
  shows "well_formed (snd (push title body url s))"
proof -
  let ?payload = "JSON_stringify 0 (payload_json title body url)"
  let ?s1 = "snd (attempts ?payload (Object_keys s (this_subscriptions s)) s)"
  have s1: "well_formed ?s1"
    using assms by (simp add: attempts_responses[OF assms] well_formed_def)
  show ?thesis
    using s1
    by (simp add: snd_push Let_def well_formed_saveSubscriptions well_formed_fold_Delete[OF s1])
qed

lemma well_formed_sendNotification:
  "well_formed s \<Longrightarrow> well_formed (snd (sendNotification d payload s))"
  by (simp add: sendNotification_def well_formed_def)

lemma well_formed_pushTo:
  assumes "well_formed s"
  shows "well_formed (snd (pushTo sid title body url s))"
proof (cases "ToBoolean (Get s (this_subscriptions s) sid)")
  case False
  then show ?thesis using assms by (simp add: pushTo_def)
next
  case True
  show ?thesis
  proof (cases "subscription_of s (Get s (this_subscriptions s) sid)")
    case (Inl e)
    then show ?thesis using assms True by (simp add: pushTo_def)
  next
    case (Inr d)
    let ?payload = "JSON_stringify 0 (payload_json title body url)"
    obtain res s1 where sn: "sendNotification d ?payload s = (res, s1)"
      by (cases "sendNotification d ?payload s")
    have s1: "well_formed s1"
      using well_formed_sendNotification[OF assms, of d ?payload] sn by simp
    have s2: "well_formed (snd (saveSubscriptions (Delete (this_subscriptions s1) sid s1)))"
      by (rule well_formed_saveSubscriptions[OF well_formed_Delete[OF s1]])
    show ?thesis
      using True Inr sn s1 s2
      by (cases res) (simp_all add: pushTo_def snd_result_case)
  qed
qed

lemma well_formed_loadOrCreateKeys: "well_formed s \<Longrightarrow> well_formed (snd (loadOrCreateKeys s))"
  by (auto simp: loadOrCreateKeys_def createKeys_eq well_formed_def Let_def
      split: sum.splits option.splits)


lemma well_formed_handle:
  assumes "well_formed s"
  shows "well_formed (snd (handle secret req s))"
proof -
  have s1: "\<And>a b c r s'. subscribe a b c s = (r, s') \<Longrightarrow> well_formed s'"
    using well_formed_subscribe[OF assms] by (metis snd_conv)
  have s2: "\<And>a r s'. unsubscribe a s = (r, s') \<Longrightarrow> well_formed s'"
    using well_formed_unsubscribe[OF assms] by (metis snd_conv)
  have s3: "\<And>r s'. getSubscriptions s = (r, s') \<Longrightarrow> well_formed s'"
    using well_formed_getSubscriptions[OF assms] by (metis snd_conv)
  have s4: "\<And>a b c r s'. push a b c s = (r, s') \<Longrightarrow> well_formed s'"
    using well_formed_push[OF assms] by (metis snd_conv)
  have sub: "well_formed (snd (route_subscribe secret req s))"
    using assms
    by (auto simp: route_subscribe_def split: option.splits prod.splits sum.splits dest: s1)
  have unsub: "well_formed (snd (route_unsubscribe secret req s))"
    using assms
    by (auto simp: route_unsubscribe_def split: option.splits prod.splits sum.splits dest: s2)
  have lst: "well_formed (snd (route_subscriptions secret v s))" for v
    using assms
    by (auto simp: route_subscriptions_def split: prod.splits dest: s3)
  have psh: "well_formed (snd (route_push secret v req s))" for v
    using assms
    by (auto simp: route_push_def split: option.splits prod.splits sum.splits dest: s4)
  show ?thesis
    using assms sub unsub lst psh
    by (auto simp: handle_def split: sum.splits option.splits)
qed

end
